theory Spec2Isabelle
  imports Main "HOL-Library.Log_Nat"
begin

section \<open>Currency exchange backend: cache, conversion, history\<close>

text \<open>
  A shallow embedding of \<^verbatim>\<open>src/app.ts\<close>: the single-slot currency cache and its
  refresh (\<^verbatim>\<open>updateCache\<close>), the conversion routes and the per-user history store.
  JavaScript objects used as dictionaries (the currency list, the rate table, the
  history store, the bulk request's \<^verbatim>\<open>amounts\<close>, its \<^verbatim>\<open>results\<close>) are maps or association
  lists of their own keys, and \<^verbatim>\<open>object[key]\<close> finds an own key or, failing that, one of
  the names that every object inherits from \<^verbatim>\<open>Object.prototype\<close>. Timestamps are integers,
  in milliseconds.
\<close>

subsection \<open>JavaScript numbers\<close>

text \<open>
  A Number is an IEEE 754 binary64 value. A finite value is \<open>Finite s m e\<close>, standing
  for \<open>(-1)\<^sup>s * m * 2\<^sup>e\<close>, in the encoding's own normal form: \<open>m < 2\<^sup>5\<^sup>3\<close>,
  \<open>-1074 \<le> e \<le> 971\<close>, and \<open>2\<^sup>5\<^sup>2 \<le> m\<close> unless \<open>e = -1074\<close> (subnormals and the two zeros).
  \<open>Infinity s\<close> and \<open>Finite s _ _\<close> are negative when \<open>s\<close> holds.
\<close>

datatype number = NaN | Infinity bool | Finite bool int int

definition is_double :: "number \<Rightarrow> bool" where
  "is_double x = (case x of
     Finite s m e \<Rightarrow> 0 \<le> m \<and> m < 2 ^ 53 \<and> - 1074 \<le> e \<and> e \<le> 971 \<and> (2 ^ 52 \<le> m \<or> e = - 1074)
   | _ \<Rightarrow> True)"

text \<open>The integer nearest to \<open>n / d\<close> (for \<open>0 < d\<close>), ties to the even one.\<close>

definition round_half_even :: "int \<Rightarrow> int \<Rightarrow> int" where
  "round_half_even n d = (let q = n div d; r = n mod d
     in if 2 * r < d then q else if d < 2 * r then q + 1 else if even q then q else q + 1)"

text \<open>\<open>\<lfloor>log\<^sub>2 (n / d)\<rfloor>\<close> for positive \<open>n\<close> and \<open>d\<close>.\<close>

definition floor_log2 :: "int \<Rightarrow> int \<Rightarrow> int" where
  "floor_log2 n d = (let l = bitlen n - bitlen d
     in if (if 0 \<le> l then d * 2 ^ nat l \<le> n else d \<le> n * 2 ^ nat (- l)) then l else l - 1)"

text \<open>
  Rounding to nearest, ties to even, of the exact value \<open>n / d * 2\<^sup>x\<close> (\<open>0 \<le> n\<close>,
  \<open>0 < d\<close>) with sign \<open>s\<close>: the result of every arithmetic operation and of every
  conversion from a decimal literal.
\<close>

definition to_double :: "bool \<Rightarrow> int \<Rightarrow> int \<Rightarrow> int \<Rightarrow> number" where
  "to_double s n d x = (if n = 0 then Finite s 0 (- 1074) else
     (let e = max (floor_log2 n d + x) (- 1022);
          q = e - 52;
          sh = x - q;
          m = (if 0 \<le> sh then round_half_even (n * 2 ^ nat sh) d
               else round_half_even n (d * 2 ^ nat (- sh)))
      in if m = 2 ^ 53 then (if 971 < q + 1 then Infinity s else Finite s (2 ^ 52) (q + 1))
         else if 971 < q then Infinity s else Finite s m q))"

text \<open>The operators \<^verbatim>\<open>*\<close> and \<^verbatim>\<open>/\<close> on Numbers.\<close>

fun num_mul :: "number \<Rightarrow> number \<Rightarrow> number" where
  "num_mul NaN _ = NaN"
| "num_mul _ NaN = NaN"
| "num_mul (Infinity s) (Infinity t) = Infinity (s \<noteq> t)"
| "num_mul (Infinity s) (Finite t m e) = (if m = 0 then NaN else Infinity (s \<noteq> t))"
| "num_mul (Finite s m e) (Infinity t) = (if m = 0 then NaN else Infinity (s \<noteq> t))"
| "num_mul (Finite s m e) (Finite t n f) = to_double (s \<noteq> t) (m * n) 1 (e + f)"

fun num_div :: "number \<Rightarrow> number \<Rightarrow> number" where
  "num_div NaN _ = NaN"
| "num_div _ NaN = NaN"
| "num_div (Infinity s) (Infinity t) = NaN"
| "num_div (Infinity s) (Finite t m e) = Infinity (s \<noteq> t)"
| "num_div (Finite s m e) (Infinity t) = Finite (s \<noteq> t) 0 (- 1074)"
| "num_div (Finite s m e) (Finite t n f) =
     (if n = 0 then (if m = 0 then NaN else Infinity (s \<noteq> t))
      else to_double (s \<noteq> t) m n (e - f))"

text \<open>An integer literal of the source, such as \<^verbatim>\<open>1\<close>.\<close>

definition num_of_int :: "int \<Rightarrow> number" where
  "num_of_int i = to_double (i < 0) \<bar>i\<bar> 1 0"

definition isNaN :: "number \<Rightarrow> bool" where
  "isNaN x = (x = NaN)"

subsection \<open>\<^verbatim>\<open>parseFloat\<close>\<close>

text \<open>
  Strings are lists of 8-bit code units. \<^verbatim>\<open>parseFloat\<close> skips leading white space,
  reads the longest prefix that is a \<^verbatim>\<open>StrDecimalLiteral\<close> (an optional sign, then
  \<^verbatim>\<open>Infinity\<close> or decimal digits with an optional fraction and exponent) and ignores the
  rest; without such a prefix the result is \<^verbatim>\<open>NaN\<close>.
\<close>

definition is_white :: "char \<Rightarrow> bool" where
  "is_white c = (of_char c \<in> {9, 10, 11, 12, 13, 32, 160 :: nat})"

definition digit_of :: "char \<Rightarrow> int option" where
  "digit_of c = (let k = (of_char c :: nat) in if 48 \<le> k \<and> k \<le> 57 then Some (int k - 48) else None)"

definition is_digit :: "char \<Rightarrow> bool" where
  "is_digit c = (digit_of c \<noteq> None)"

definition digits_value :: "string \<Rightarrow> int" where
  "digits_value ds = foldl (\<lambda>a c. 10 * a + (case digit_of c of Some k \<Rightarrow> k | None \<Rightarrow> 0)) 0 ds"

text \<open>The value of an \<^verbatim>\<open>ExponentPart\<close> at the head of the string, 0 when there is none.\<close>

definition exponent_part :: "string \<Rightarrow> int" where
  "exponent_part r =
     (case r of
        [] \<Rightarrow> 0
      | c # r1 \<Rightarrow>
          if c = CHR ''e'' \<or> c = CHR ''E'' then
            (let (neg, r2) =
                   (case r1 of
                      [] \<Rightarrow> (False, r1)
                    | c1 # r3 \<Rightarrow>
                        if c1 = CHR ''-'' then (True, r3)
                        else if c1 = CHR ''+'' then (False, r3) else (False, r1));
                 ds = takeWhile is_digit r2
             in if ds = [] then 0 else if neg then - digits_value ds else digits_value ds)
          else 0)"

definition parseFloat :: "string \<Rightarrow> number" where
  "parseFloat str =
     (let trimmed = dropWhile is_white str;
          (neg, u) =
            (case trimmed of
               [] \<Rightarrow> (False, trimmed)
             | c # r \<Rightarrow>
                 if c = CHR ''-'' then (True, r)
                 else if c = CHR ''+'' then (False, r) else (False, trimmed))
      in if take 8 u = ''Infinity'' then Infinity neg
         else
           (let ip = takeWhile is_digit u;
                r1 = dropWhile is_digit u;
                (fp, r2) =
                  (case r1 of
                     [] \<Rightarrow> ([], r1)
                   | c # r \<Rightarrow>
                       if c = CHR ''.'' then (takeWhile is_digit r, dropWhile is_digit r)
                       else ([], r1))
            in if ip = [] \<and> fp = [] then NaN
               else
                 (let scale = exponent_part r2 - int (length fp);
                      mant = digits_value (ip @ fp)
                  in if 0 \<le> scale then to_double neg (mant * 10 ^ nat scale) 1 0
                     else to_double neg mant (10 ^ nat (- scale)) 0)))"

text \<open>
  An amount of the bulk request, a JSON scalar (amounts that are arrays or objects are
  not modelled). \<^verbatim>\<open>parseFloat\<close> first turns
  its argument into a string: \<^verbatim>\<open>null\<close> and the booleans become their names, and a Number
  becomes the shortest decimal that reads back as the same Number, except that \<^verbatim>\<open>-0\<close>
  becomes the string \<^verbatim>\<open>0\<close>.
\<close>

datatype json = JNull | JBool bool | JNumber number | JString string

definition parseFloat_json :: "json \<Rightarrow> number" where
  "parseFloat_json v =
     (case v of
        JNull \<Rightarrow> parseFloat ''null''
      | JBool b \<Rightarrow> parseFloat (if b then ''true'' else ''false'')
      | JNumber x \<Rightarrow> (case x of Finite s m e \<Rightarrow> if m = 0 then Finite False 0 e else x | _ \<Rightarrow> x)
      | JString str \<Rightarrow> parseFloat str)"

subsection \<open>Objects as dictionaries\<close>

text \<open>
  The properties of \<^verbatim>\<open>Object.prototype\<close>, which a plain object (an object literal, the
  result of parsing JSON) inherits: eleven functions, and the accessor \<^verbatim>\<open>__proto__\<close>,
  which reads as \<^verbatim>\<open>Object.prototype\<close> itself.
\<close>

definition object_prototype_names :: "string list" where
  "object_prototype_names =
     [''constructor'', ''__defineGetter__'', ''__defineSetter__'', ''hasOwnProperty'',
      ''__lookupGetter__'', ''__lookupSetter__'', ''isPrototypeOf'', ''propertyIsEnumerable'',
      ''toString'', ''valueOf'', ''__proto__'', ''toLocaleString'']"

definition inherited :: "string \<Rightarrow> bool" where
  "inherited key = (key \<in> set object_prototype_names)"

text \<open>
  \<^verbatim>\<open>object[key]\<close> is truthy, for an object whose own values are objects or arrays (the
  entries of the currency list, the lists of the history store): an own value is truthy,
  an empty array too, and so is each inherited value; a key that is neither own nor
  inherited reads as \<^verbatim>\<open>undefined\<close>.
\<close>

definition truthy_at :: "(string \<rightharpoonup> 'v) \<Rightarrow> string \<Rightarrow> bool" where
  "truthy_at object key = (inherited key \<or> object key \<noteq> None)"

subsection \<open>The cache and the rate provider\<close>

record currency_info =
  symbol :: string
  name :: string
  decimal_digits :: nat

type_synonym currency_table = "string \<rightharpoonup> currency_info"
type_synonym rate_table = "string \<rightharpoonup> number"

text \<open>\<^verbatim>\<open>interface CurrencyCache\<close>; \<open>None\<close> is \<^verbatim>\<open>null\<close>, timestamps are milliseconds.\<close>

record CurrencyCache =
  currencies :: "currency_table option"
  rates :: "rate_table option"
  baseCurrency :: "string option"
  lastUpdated :: "int option"

definition initial_cache :: CurrencyCache where
  "initial_cache = \<lparr>currencies = None, rates = None, baseCurrency = None, lastUpdated = None\<rparr>"

definition CACHE_EXPIRATION :: int where
  "CACHE_EXPIRATION = 5 * 60 * 1000"

datatype error = UpstreamFetchError string | ValidationError string | TypeError string

text \<open>A reply is the success payload, or the status and the error of the \<^verbatim>\<open>catch\<close> block.\<close>

datatype 'a reply = Success 'a | Failure nat error

text \<open>
  The provider as one call sees it: what \<^verbatim>\<open>GET /currencies\<close> and
  \<^verbatim>\<open>GET /latest?base_currency=b\<close> answer (\<open>None\<close> when the request fails), and which of
  two failing requests of a \<^verbatim>\<open>Promise.all\<close> is rejected first.
\<close>

record upstream =
  currencies_response :: "currency_table option"
  rates_response :: "string \<Rightarrow> rate_table option"
  rates_rejected_first :: bool

datatype upstream_call = GetCurrencies | GetLatest string

definition fetchAllCurrencies :: "upstream \<Rightarrow> error + currency_table" where
  "fetchAllCurrencies up = (case currencies_response up of
     Some d \<Rightarrow> Inr d
   | None \<Rightarrow> Inl (UpstreamFetchError ''Failed to fetch currency list''))"

definition fetchAllRates :: "upstream \<Rightarrow> string \<Rightarrow> error + rate_table" where
  "fetchAllRates up base = (case rates_response up base of
     Some d \<Rightarrow> Inr d
   | None \<Rightarrow> Inl (UpstreamFetchError ''Failed to fetch exchange rates''))"

text \<open>
  The first test of \<^verbatim>\<open>updateCache\<close>:
  \<^verbatim>\<open>!currencyCache.currencies || !currencyCache.lastUpdated || (now - currencyCache.lastUpdated) > CACHE_EXPIRATION\<close>
  (a timestamp 0 is falsy).
\<close>

definition needs_full_refresh :: "int \<Rightarrow> CurrencyCache \<Rightarrow> bool" where
  "needs_full_refresh now c = (currencies c = None \<or>
     (case lastUpdated c of None \<Rightarrow> True | Some t \<Rightarrow> t = 0 \<or> CACHE_EXPIRATION < now - t))"

text \<open>
  \<^verbatim>\<open>updateCache(base)\<close> run alone, at time \<open>now\<close>, on the cache \<open>c\<close>: the requests it
  sends to the provider, the error it throws (if any) and the cache it leaves.
\<close>

definition updateCache ::
  "upstream \<Rightarrow> int \<Rightarrow> string \<Rightarrow> CurrencyCache \<Rightarrow> upstream_call list \<times> error option \<times> CurrencyCache" where
  "updateCache up now base c =
     (if needs_full_refresh now c then
        (case (fetchAllCurrencies up, fetchAllRates up base) of
           (Inr cs, Inr rs) \<Rightarrow>
             ([GetCurrencies, GetLatest base], None,
              \<lparr>currencies = Some cs, rates = Some rs, baseCurrency = Some base,
               lastUpdated = Some now\<rparr>)
         | (Inl e, Inr rs) \<Rightarrow> ([GetCurrencies, GetLatest base], Some e, c)
         | (Inr cs, Inl e) \<Rightarrow> ([GetCurrencies, GetLatest base], Some e, c)
         | (Inl e1, Inl e2) \<Rightarrow>
             ([GetCurrencies, GetLatest base],
              Some (if rates_rejected_first up then e2 else e1), c))
      else if baseCurrency c \<noteq> Some base then
        (case fetchAllRates up base of
           Inr rs \<Rightarrow>
             ([GetLatest base], None,
              c\<lparr>rates := Some rs, baseCurrency := Some base, lastUpdated := Some now\<rparr>)
         | Inl e \<Rightarrow> ([GetLatest base], Some e, c))
      else ([], None, c))"

text \<open>
  A request that \<^verbatim>\<open>updateCache(base)\<close> sends at time \<open>now\<close> on the cache \<open>c\<close> fails.
\<close>

definition fetch_fails :: "upstream \<Rightarrow> int \<Rightarrow> string \<Rightarrow> CurrencyCache \<Rightarrow> bool" where
  "fetch_fails up now base c =
     (if needs_full_refresh now c
      then currencies_response up = None \<or> rates_response up base = None
      else baseCurrency c \<noteq> Some base \<and> rates_response up base = None)"

text \<open>
  What holds of every cache the server can reach when the clock is positive: the cache
  is empty, or all four fields are set and the timestamp is positive.
\<close>

definition cache_inv :: "CurrencyCache \<Rightarrow> bool" where
  "cache_inv c = (c = initial_cache \<or>
     (currencies c \<noteq> None \<and> rates c \<noteq> None \<and> baseCurrency c \<noteq> None \<and>
      (case lastUpdated c of None \<Rightarrow> False | Some t \<Rightarrow> 0 < t)))"

subsection \<open>The history store\<close>

record ConversionRecord =
  userId :: "string option"
  fromCurrency :: string
  toCurrency :: string
  amount :: number
  result :: number
  rate :: number
  timestamp :: int

type_synonym history_store = "string \<rightharpoonup> ConversionRecord list"

record state =
  currencyCache :: CurrencyCache
  conversionHistoryStore :: history_store

definition initial_state :: state where
  "initial_state = \<lparr>currencyCache = initial_cache, conversionHistoryStore = Map.empty\<rparr>"

text \<open>The body of \<^verbatim>\<open>POST /api/history\<close>: \<^verbatim>\<open>{ userId?, conversion }\<close>.\<close>

record history_body =
  body_userId :: "string option"
  body_conversion :: ConversionRecord

text \<open>
  The payloads of the history routes: \<^verbatim>\<open>{ success: true }\<close>, the user's list, and what
  \<^verbatim>\<open>GET /api/history\<close> answers when it reads an inherited value, which is no list.
\<close>

datatype history_reply = HistoryOk | HistoryList "ConversionRecord list" | HistoryNotAList

text \<open>
  \<^verbatim>\<open>POST /api/history\<close> at time \<open>now\<close>. When \<^verbatim>\<open>conversionHistoryStore[userId]\<close> is falsy an
  empty list is stored for the user. Then the record (the posted conversion with a fresh
  timestamp) is put in front by \<^verbatim>\<open>unshift\<close> and the list is cut by \<^verbatim>\<open>slice(0, 20)\<close>. When
  the user has no list of its own but an inherited value, no list is stored, \<^verbatim>\<open>unshift\<close> is
  not a function of that value, and the \<^verbatim>\<open>catch\<close> block answers 500.
\<close>

definition post_history :: "int \<Rightarrow> history_body \<Rightarrow> state \<Rightarrow> history_reply reply \<times> state" where
  "post_history now body st =
     (let user = (case body_userId body of None \<Rightarrow> ''anonymous'' | Some u \<Rightarrow> u);
          store = conversionHistoryStore st;
          created = (if truthy_at store user then store else store(user \<mapsto> []));
          record = (body_conversion body)\<lparr>timestamp := now\<rparr>
      in case created user of
           None \<Rightarrow>
             (Failure 500 (TypeError ''conversionHistoryStore[userId].unshift is not a function''), st)
         | Some existing \<Rightarrow>
             (let unshifted = record # existing
              in (Success HistoryOk,
                  st\<lparr>conversionHistoryStore := created(user \<mapsto> take 20 unshifted)\<rparr>)))"

definition get_history :: "string option \<Rightarrow> state \<Rightarrow> history_reply \<times> state" where
  "get_history query_userId st =
     (let user = (case query_userId of None \<Rightarrow> ''anonymous'' | Some u \<Rightarrow> u)
      in case conversionHistoryStore st user of
           Some rs \<Rightarrow> (HistoryList rs, st)
         | None \<Rightarrow> (if inherited user then HistoryNotAList else HistoryList [], st))"

definition delete_history :: "string option \<Rightarrow> state \<Rightarrow> history_reply \<times> state" where
  "delete_history query_userId st =
     (let user = (case query_userId of None \<Rightarrow> ''anonymous'' | Some u \<Rightarrow> u)
      in (HistoryOk, st\<lparr>conversionHistoryStore := (conversionHistoryStore st)(user := None)\<rparr>))"

text \<open>A run of \<^verbatim>\<open>POST /api/history\<close> requests, each with its arrival time.\<close>

fun post_all :: "(int \<times> history_body) list \<Rightarrow> state \<Rightarrow> state" where
  "post_all [] st = st"
| "post_all ((now, body) # reqs) st = post_all reqs (snd (post_history now body st))"

definition user_of :: "history_body \<Rightarrow> string" where
  "user_of body = (case body_userId body of None \<Rightarrow> ''anonymous'' | Some u \<Rightarrow> u)"

definition history_of :: "state \<Rightarrow> string \<Rightarrow> ConversionRecord list" where
  "history_of st user = (case conversionHistoryStore st user of None \<Rightarrow> [] | Some rs \<Rightarrow> rs)"

text \<open>The records a run of requests stores for one user, oldest first.\<close>

definition records_for :: "string \<Rightarrow> (int \<times> history_body) list \<Rightarrow> ConversionRecord list" where
  "records_for user reqs =
     map (\<lambda>(now, body). (body_conversion body)\<lparr>timestamp := now\<rparr>)
       (filter (\<lambda>(now, body). user_of body = user) reqs)"

subsection \<open>The routes\<close>

text \<open>\<^verbatim>\<open>GET /api/currencies\<close>.\<close>

definition get_currencies ::
  "upstream \<Rightarrow> int \<Rightarrow> state \<Rightarrow> currency_table option reply \<times> upstream_call list \<times> state" where
  "get_currencies up now st =
     (case updateCache up now ''USD'' (currencyCache st) of
        (calls, Some e, c) \<Rightarrow> (Failure 500 e, calls, st\<lparr>currencyCache := c\<rparr>)
      | (calls, None, c) \<Rightarrow> (Success (currencies c), calls, st\<lparr>currencyCache := c\<rparr>))"

text \<open>\<^verbatim>\<open>GET /api/rates\<close>; the query's \<^verbatim>\<open>base\<close> defaults to \<^verbatim>\<open>'USD'\<close>.\<close>

definition get_rates ::
  "upstream \<Rightarrow> int \<Rightarrow> string option \<Rightarrow> state \<Rightarrow>
     (string option \<times> rate_table option) reply \<times> upstream_call list \<times> state" where
  "get_rates up now query_base st =
     (let base = (case query_base of None \<Rightarrow> ''USD'' | Some b \<Rightarrow> b)
      in case updateCache up now base (currencyCache st) of
           (calls, Some e, c) \<Rightarrow> (Failure 500 e, calls, st\<lparr>currencyCache := c\<rparr>)
         | (calls, None, c) \<Rightarrow>
             (Success (baseCurrency c, rates c), calls, st\<lparr>currencyCache := c\<rparr>))"

text \<open>
  \<^verbatim>\<open>usdRates[code]\<close> where it is used as a Number: reading a property of \<^verbatim>\<open>null\<close>
  throws; a missing entry is \<^verbatim>\<open>undefined\<close> and an inherited one a function or an object,
  all of which \<^verbatim>\<open>/\<close> and \<^verbatim>\<open>*\<close> take as \<^verbatim>\<open>NaN\<close>.
\<close>

definition rate_of :: "rate_table \<Rightarrow> string \<Rightarrow> number" where
  "rate_of rs code = (case rs code of None \<Rightarrow> NaN | Some r \<Rightarrow> r)"

definition usdRates_at :: "rate_table option \<Rightarrow> string \<Rightarrow> error + number" where
  "usdRates_at usdRates code =
     (case usdRates of
        None \<Rightarrow> Inl (TypeError ''Cannot read properties of null'')
      | Some rs \<Rightarrow> Inr (rate_of rs code))"

record conversion =
  conv_from :: string
  conv_to :: string
  conv_amount :: number
  conv_rate :: number
  conv_result :: number

text \<open>\<^verbatim>\<open>GET /api/convert/:from/:to/:amount\<close>, the three path parameters being strings.\<close>

definition convert ::
  "upstream \<Rightarrow> int \<Rightarrow> string \<Rightarrow> string \<Rightarrow> string \<Rightarrow> state \<Rightarrow>
     conversion reply \<times> upstream_call list \<times> state" where
  "convert up now from_code to_code amount_param st =
     (let numericAmount = parseFloat amount_param
      in if isNaN numericAmount
         then (Failure 400 (ValidationError ''Amount must be a number''), [], st)
         else
           (case updateCache up now ''USD'' (currencyCache st) of
              (calls, Some e, c) \<Rightarrow> (Failure 400 e, calls, st\<lparr>currencyCache := c\<rparr>)
            | (calls, None, c) \<Rightarrow>
                (let st' = st\<lparr>currencyCache := c\<rparr>;
                     usdRates = rates c
                 in case currencies c of
                      None \<Rightarrow> (Failure 400 (TypeError ''Cannot read properties of null''), calls, st')
                    | Some cur \<Rightarrow>
                        if \<not> truthy_at cur from_code \<or> \<not> truthy_at cur to_code
                        then (Failure 400 (ValidationError ''Invalid currency code''), calls, st')
                        else
                          (case (if from_code = ''USD'' then Inr (num_of_int 1)
                                 else map_sum id (num_div (num_of_int 1)) (usdRates_at usdRates from_code)) of
                             Inl e \<Rightarrow> (Failure 400 e, calls, st')
                           | Inr fromToUsd \<Rightarrow>
                               (case (if to_code = ''USD'' then Inr (num_of_int 1)
                                      else usdRates_at usdRates to_code) of
                                  Inl e \<Rightarrow> (Failure 400 e, calls, st')
                                | Inr usdToTo \<Rightarrow>
                                    (let r = num_mul fromToUsd usdToTo;
                                         res = num_mul numericAmount r
                                     in (Success \<lparr>conv_from = from_code, conv_to = to_code,
                                           conv_amount = numericAmount, conv_rate = r,
                                           conv_result = res\<rparr>, calls, st')))))))"

text \<open>
  \<^verbatim>\<open>POST /api/convert/bulk\<close> with the body \<^verbatim>\<open>{ from, amounts }\<close>: \<open>None\<close> is a missing
  \<^verbatim>\<open>from\<close>, or an \<^verbatim>\<open>amounts\<close> that is missing or not an object; the entries of
  \<^verbatim>\<open>amounts\<close> are in the order of \<^verbatim>\<open>Object.entries\<close>.
\<close>

record bulk_body =
  bulk_from :: "string option"
  bulk_amounts :: "(string \<times> json) list option"

datatype bulk_entry = ErrorEntry string | ResultEntry number number number

text \<open>An own property is set: a new key goes last, a known key keeps its place.\<close>

fun set_own :: "string \<Rightarrow> bulk_entry \<Rightarrow> (string \<times> bulk_entry) list \<Rightarrow> (string \<times> bulk_entry) list" where
  "set_own k v [] = [(k, v)]"
| "set_own k v ((k', v') # kvs) = (if k' = k then (k, v) # kvs else (k', v') # set_own k v kvs)"

text \<open>
  \<^verbatim>\<open>results[currency] = entry\<close>. The key \<^verbatim>\<open>__proto__\<close> is the inherited accessor: assigning
  an object to it replaces the prototype of \<^verbatim>\<open>results\<close> and sets no own property, so the
  reply, which is made of the own properties, has no such key. Every other key becomes
  an own property.
\<close>

definition assign :: "string \<Rightarrow> bulk_entry \<Rightarrow> (string \<times> bulk_entry) list \<Rightarrow> (string \<times> bulk_entry) list" where
  "assign k v kvs = (if k = ''__proto__'' then kvs else set_own k v kvs)"

text \<open>The \<^verbatim>\<open>for\<close> loop over \<^verbatim>\<open>Object.entries(amounts)\<close>, with \<^verbatim>\<open>results\<close> as accumulator.\<close>

fun bulk_loop ::
  "currency_table \<Rightarrow> rate_table option \<Rightarrow> number \<Rightarrow> (string \<times> json) list \<Rightarrow>
     (string \<times> bulk_entry) list \<Rightarrow> error + (string \<times> bulk_entry) list" where
  "bulk_loop cur usdRates fromToUsd [] results = Inr results"
| "bulk_loop cur usdRates fromToUsd ((currency, amount_value) # entries) results =
     (if \<not> truthy_at cur currency
      then bulk_loop cur usdRates fromToUsd entries
             (assign currency (ErrorEntry ''Invalid currency code'') results)
      else
        (let numericAmount = parseFloat_json amount_value
         in if isNaN numericAmount
            then bulk_loop cur usdRates fromToUsd entries
                   (assign currency (ErrorEntry ''Amount must be a number'') results)
            else
              (case (if currency = ''USD'' then Inr (num_of_int 1)
                     else usdRates_at usdRates currency) of
                 Inl e \<Rightarrow> Inl e
               | Inr usdToCurrency \<Rightarrow>
                   (let r = num_mul fromToUsd usdToCurrency;
                        res = num_mul numericAmount r
                    in bulk_loop cur usdRates fromToUsd entries
                         (assign currency (ResultEntry numericAmount r res) results)))))"

definition convert_bulk ::
  "upstream \<Rightarrow> int \<Rightarrow> bulk_body \<Rightarrow> state \<Rightarrow>
     (string \<times> (string \<times> bulk_entry) list) reply \<times> upstream_call list \<times> state" where
  "convert_bulk up now body st =
     (case (bulk_from body, bulk_amounts body) of
        (Some from_code, Some amounts) \<Rightarrow>
          if from_code = []
          then (Failure 400 (ValidationError
                  ''Invalid request format. Expected { from: \"CUR\", amounts: { \"CUR\": amount } }''), [], st)
          else
            (case updateCache up now ''USD'' (currencyCache st) of
               (calls, Some e, c) \<Rightarrow> (Failure 400 e, calls, st\<lparr>currencyCache := c\<rparr>)
             | (calls, None, c) \<Rightarrow>
                 (let st' = st\<lparr>currencyCache := c\<rparr>;
                      usdRates = rates c
                  in case currencies c of
                       None \<Rightarrow> (Failure 400 (TypeError ''Cannot read properties of null''), calls, st')
                     | Some cur \<Rightarrow>
                         if \<not> truthy_at cur from_code
                         then (Failure 400 (ValidationError (''Invalid source currency: '' @ from_code)),
                               calls, st')
                         else
                           (case (if from_code = ''USD'' then Inr (num_of_int 1)
                                  else map_sum id (num_div (num_of_int 1)) (usdRates_at usdRates from_code)) of
                              Inl e \<Rightarrow> (Failure 400 e, calls, st')
                            | Inr fromToUsd \<Rightarrow>
                                (case bulk_loop cur usdRates fromToUsd amounts [] of
                                   Inl e \<Rightarrow> (Failure 400 e, calls, st')
                                 | Inr results \<Rightarrow> (Success (from_code, results), calls, st')))))
      | _ \<Rightarrow> (Failure 400 (ValidationError
                 ''Invalid request format. Expected { from: \"CUR\", amounts: { \"CUR\": amount } }''), [], st))"

text \<open>
  The entry that the loop stores for one key of \<^verbatim>\<open>amounts\<close>, given the currency list, the
  rate table and the factor \<^verbatim>\<open>fromToUsd\<close>.
\<close>

definition bulk_entry_of :: "currency_table \<Rightarrow> rate_table \<Rightarrow> number \<Rightarrow> string \<Rightarrow> json \<Rightarrow> bulk_entry" where
  "bulk_entry_of cur rs fromToUsd currency amount_value =
     (if \<not> truthy_at cur currency then ErrorEntry ''Invalid currency code''
      else if isNaN (parseFloat_json amount_value) then ErrorEntry ''Amount must be a number''
      else ResultEntry (parseFloat_json amount_value)
             (num_mul fromToUsd (if currency = ''USD'' then num_of_int 1 else rate_of rs currency))
             (num_mul (parseFloat_json amount_value)
                (num_mul fromToUsd (if currency = ''USD'' then num_of_int 1 else rate_of rs currency))))"

subsection \<open>Interleaved calls of \<^verbatim>\<open>updateCache\<close>\<close>

text \<open>
  Request handlers run on one thread and give way only at an \<^verbatim>\<open>await\<close>. A call of
  \<^verbatim>\<open>updateCache\<close> therefore runs in two uninterrupted steps: from its start to the
  \<^verbatim>\<open>await\<close> of its branch (the requests to the provider have been sent), and from the
  settling of the awaited promise to its end. Between the two, other calls may start or
  finish. The variable \<^verbatim>\<open>currencyCache\<close> refers to an object of the heap; the assignment
  \<^verbatim>\<open>currencyCache.rates = await fetchAllRates(baseCurrency)\<close> fixes the object it writes to
  before the \<^verbatim>\<open>await\<close>, the two assignments after it read the variable again.
\<close>

datatype task =
    AwaitAll int string
  | AwaitRates nat int string
  | Returned
  | Threw error

record server =
  heap :: "CurrencyCache list"
  cache_ref :: nat
  tasks :: "task list"
  requests :: "upstream_call list"

definition initial_server :: server where
  "initial_server = \<lparr>heap = [initial_cache], cache_ref = 0, tasks = [], requests = []\<rparr>"

definition current_cache :: "server \<Rightarrow> CurrencyCache" where
  "current_cache sv = heap sv ! cache_ref sv"

text \<open>
  \<open>Call base now\<close>: a handler calls \<^verbatim>\<open>updateCache(base)\<close> at time \<open>now\<close>; the call becomes
  the next task. \<open>Settle i up\<close>: what task \<open>i\<close> awaits is settled, with the answers of \<open>up\<close>.
\<close>

datatype event = Call string int | Settle nat upstream

definition start_call :: "string \<Rightarrow> int \<Rightarrow> server \<Rightarrow> server" where
  "start_call base now sv =
     (let c = current_cache sv
      in if needs_full_refresh now c then
           sv\<lparr>tasks := tasks sv @ [AwaitAll now base],
              requests := requests sv @ [GetCurrencies, GetLatest base]\<rparr>
         else if baseCurrency c \<noteq> Some base then
           sv\<lparr>tasks := tasks sv @ [AwaitRates (cache_ref sv) now base],
              requests := requests sv @ [GetLatest base]\<rparr>
         else sv\<lparr>tasks := tasks sv @ [Returned]\<rparr>)"

definition settle :: "nat \<Rightarrow> upstream \<Rightarrow> server \<Rightarrow> server" where
  "settle i up sv =
     (if length (tasks sv) \<le> i then sv
      else
        (case tasks sv ! i of
           AwaitAll now base \<Rightarrow>
             (case (fetchAllCurrencies up, fetchAllRates up base) of
                (Inr cs, Inr rs) \<Rightarrow>
                  sv\<lparr>heap := heap sv @
                       [\<lparr>currencies = Some cs, rates = Some rs, baseCurrency = Some base,
                         lastUpdated = Some now\<rparr>],
                     cache_ref := length (heap sv),
                     tasks := (tasks sv)[i := Returned]\<rparr>
              | (Inl e, Inr rs) \<Rightarrow> sv\<lparr>tasks := (tasks sv)[i := Threw e]\<rparr>
              | (Inr cs, Inl e) \<Rightarrow> sv\<lparr>tasks := (tasks sv)[i := Threw e]\<rparr>
              | (Inl e1, Inl e2) \<Rightarrow>
                  sv\<lparr>tasks := (tasks sv)[i := Threw (if rates_rejected_first up then e2 else e1)]\<rparr>)
         | AwaitRates target now base \<Rightarrow>
             (case fetchAllRates up base of
                Inr rs \<Rightarrow>
                  (let h1 = (heap sv)[target := (heap sv ! target)\<lparr>rates := Some rs\<rparr>];
                       h2 = h1[cache_ref sv := (h1 ! cache_ref sv)\<lparr>baseCurrency := Some base\<rparr>];
                       h3 = h2[cache_ref sv := (h2 ! cache_ref sv)\<lparr>lastUpdated := Some now\<rparr>]
                   in sv\<lparr>heap := h3, tasks := (tasks sv)[i := Returned]\<rparr>)
              | Inl e \<Rightarrow> sv\<lparr>tasks := (tasks sv)[i := Threw e]\<rparr>)
         | Returned \<Rightarrow> sv
         | Threw e \<Rightarrow> sv))"

fun step :: "event \<Rightarrow> server \<Rightarrow> server" where
  "step (Call base now) sv = start_call base now sv"
| "step (Settle i up) sv = settle i up sv"

fun run :: "event list \<Rightarrow> server \<Rightarrow> server" where
  "run [] sv = sv"
| "run (ev # evs) sv = run evs (step ev sv)"

definition is_pending :: "task \<Rightarrow> bool" where
  "is_pending t = (case t of AwaitAll now base \<Rightarrow> True | AwaitRates target now base \<Rightarrow> True | _ \<Rightarrow> False)"

text \<open>
  Every reference to a cache object is an index of the heap: the variable's, and the
  target that a pending assignment to \<^verbatim>\<open>currencyCache.rates\<close> has fixed.
\<close>

definition ref_ok :: "nat \<Rightarrow> task \<Rightarrow> bool" where
  "ref_ok n t = (case t of AwaitRates target now base \<Rightarrow> target < n | _ \<Rightarrow> True)"

definition valid_refs :: "server \<Rightarrow> bool" where
  "valid_refs sv = (cache_ref sv < length (heap sv) \<and> list_all (ref_ok (length (heap sv))) (tasks sv))"

text \<open>The number of refreshes in flight: the calls that wait for the provider.\<close>

definition in_flight :: "server \<Rightarrow> nat" where
  "in_flight sv = length (filter is_pending (tasks sv))"

subsection \<open>Sample data\<close>

definition sample_conversion :: ConversionRecord where
  "sample_conversion = \<lparr>userId = None, fromCurrency = ''USD'', toCurrency = ''EUR'',
     amount = num_of_int 10, result = num_of_int 9, rate = NaN, timestamp = 0\<rparr>"

text \<open>25 posts without a \<^verbatim>\<open>userId\<close>, arriving at the times 1 to 25.\<close>

definition sample_posts :: "(int \<times> history_body) list" where
  "sample_posts = map (\<lambda>t. (t, \<lparr>body_userId = None, body_conversion = sample_conversion\<rparr>))
     [1, 2, 3, 4, 5, 6, 7, 8, 9, 10, 11, 12, 13, 14, 15, 16, 17, 18, 19, 20, 21, 22, 23, 24, 25]"

definition sample_currencies :: currency_table where
  "sample_currencies =
     [''USD'' \<mapsto> \<lparr>symbol = ''$'', name = ''US Dollar'', decimal_digits = 2\<rparr>,
      ''EUR'' \<mapsto> \<lparr>symbol = ''E'', name = ''Euro'', decimal_digits = 2\<rparr>,
      ''THB'' \<mapsto> \<lparr>symbol = ''B'', name = ''Thai Baht'', decimal_digits = 2\<rparr>,
      ''XAU'' \<mapsto> \<lparr>symbol = ''XAU'', name = ''Gold Ounce'', decimal_digits = 4\<rparr>]"

text \<open>
  Rates per US dollar: 1 for \<^verbatim>\<open>USD\<close>, 0.5 for \<^verbatim>\<open>EUR\<close>, 49 for \<^verbatim>\<open>THB\<close>; rates per euro: 2, 1
  and 98. Neither table has a rate for \<^verbatim>\<open>XAU\<close>.
\<close>

definition usd_rates :: rate_table where
  "usd_rates = [''USD'' \<mapsto> Finite False 4503599627370496 (- 52),
                ''EUR'' \<mapsto> Finite False 4503599627370496 (- 53),
                ''THB'' \<mapsto> Finite False 6896136929411072 (- 47)]"

definition eur_rates :: rate_table where
  "eur_rates = [''USD'' \<mapsto> Finite False 4503599627370496 (- 51),
                ''EUR'' \<mapsto> Finite False 4503599627370496 (- 52),
                ''THB'' \<mapsto> Finite False 6896136929411072 (- 46)]"

definition sample_upstream :: upstream where
  "sample_upstream = \<lparr>currencies_response = Some sample_currencies,
     rates_response = (\<lambda>base. if base = ''USD'' then Some usd_rates
                              else if base = ''EUR'' then Some eur_rates else None),
     rates_rejected_first = False\<rparr>"

definition failing_upstream :: upstream where
  "failing_upstream = \<lparr>currencies_response = None, rates_response = (\<lambda>base. None),
     rates_rejected_first = False\<rparr>"

text \<open>The cache after a first call \<^verbatim>\<open>updateCache('USD')\<close> at time 1000.\<close>

definition sample_cache :: CurrencyCache where
  "sample_cache = \<lparr>currencies = Some sample_currencies, rates = Some usd_rates,
     baseCurrency = Some ''USD'', lastUpdated = Some 1000\<rparr>"

definition sample_state :: state where
  "sample_state = \<lparr>currencyCache = sample_cache, conversionHistoryStore = Map.empty\<rparr>"

text \<open>
  The bulk request \<^verbatim>\<open>{ from: "USD", amounts: { EUR: 10, ZZZ: 5, THB: "abc" } }\<close>.
\<close>

definition sample_bulk :: bulk_body where
  "sample_bulk = \<lparr>bulk_from = Some ''USD'',
     bulk_amounts = Some [(''EUR'', JNumber (Finite False 5629499534213120 (- 49))),
                          (''ZZZ'', JNumber (Finite False 5629499534213120 (- 50))),
                          (''THB'', JString ''abc'')]\<rparr>"

text \<open>
  The bulk request \<^verbatim>\<open>{ from: "USD", amounts: { EUR: 10, constructor: 5, __proto__: 5 } }\<close>
  and the history request \<^verbatim>\<open>{ userId: "constructor", conversion }\<close>, once and 25 times, at
  the times 1 to 25.
\<close>

definition inherited_bulk :: bulk_body where
  "inherited_bulk = \<lparr>bulk_from = Some ''USD'',
     bulk_amounts = Some [(''EUR'', JNumber (Finite False 5629499534213120 (- 49))),
                          (''constructor'', JNumber (Finite False 5629499534213120 (- 50))),
                          (''__proto__'', JNumber (Finite False 5629499534213120 (- 50)))]\<rparr>"

definition inherited_post :: history_body where
  "inherited_post = \<lparr>body_userId = Some ''constructor'', body_conversion = sample_conversion\<rparr>"

definition inherited_posts :: "(int \<times> history_body) list" where
  "inherited_posts = map (\<lambda>t. (t, inherited_post))
     [1, 2, 3, 4, 5, 6, 7, 8, 9, 10, 11, 12, 13, 14, 15, 16, 17, 18, 19, 20, 21, 22, 23, 24, 25]"

text \<open>
  Two calls on the empty cache, neither settled; and a run in which a change of base,
  started on a snapshot 299999 ms old, is settled after a full refresh that started 2 ms
  later, on the then expired snapshot.
\<close>

definition stampede_run :: "event list" where
  "stampede_run = [Call ''USD'' 1000, Call ''USD'' 1001]"

definition torn_run :: "event list" where
  "torn_run = [Call ''USD'' 1000, Settle 0 sample_upstream,
               Call ''EUR'' 300999, Call ''USD'' 301001,
               Settle 2 sample_upstream, Settle 1 sample_upstream]"

section \<open>Properties\<close>

subsection \<open>Rounding to a Number\<close>

lemma bitlen_one: "bitlen 1 = 1"
  using bitlen_twopow_add_eq [of 0 0] by simp

lemma bitlen_pos: "0 < m \<Longrightarrow> 1 \<le> bitlen m"
  by (simp add: bitlen_alt_def)

text \<open>Multiplying a Number by 1 is exact.\<close>

lemma floor_log2_shifted:
  assumes "0 < m"
  shows "floor_log2 (m * 2 ^ 52) 1 = bitlen m + 51"
proof -
  have b: "1 \<le> bitlen m" using assms by (rule bitlen_pos)
  have l: "bitlen (m * 2 ^ 52) - bitlen 1 = bitlen m + 51"
    using bitlen_pow2 [OF assms, of 52] by (simp add: bitlen_one)
  have nn: "0 \<le> bitlen m + 51" using b by simp
  have "(2::int) ^ nat (bitlen m - 1) \<le> m"
    using bitlen_bounds [OF assms] by simp
  then have "(2::int) ^ nat (bitlen m - 1) * 2 ^ 52 \<le> m * 2 ^ 52"
    by simp
  moreover have "nat (bitlen m + 51) = nat (bitlen m - 1) + 52"
    using b by simp
  ultimately have t: "(1::int) * 2 ^ nat (bitlen m + 51) \<le> m * 2 ^ 52"
    by (simp only: power_add mult_1)
  show ?thesis
    unfolding floor_log2_def Let_def l by (simp only: nn t if_True)
qed

lemma round_half_even_exact: "0 < d \<Longrightarrow> round_half_even (m * d) d = m"
  by (simp add: round_half_even_def)

lemma num_of_int_1: "num_of_int 1 = Finite False (2 ^ 52) (- 52)"
  by (simp add: num_of_int_def to_double_def floor_log2_def round_half_even_def Let_def compute_bitlen)

lemma to_double_shifted:
  assumes "is_double (Finite s m e)"
  shows "to_double s (m * 2 ^ 52) 1 (e - 52) = Finite s m e"
proof (cases "m = 0")
  case True
  then show ?thesis using assms by (simp add: to_double_def is_double_def)
next
  case False
  then have pos: "0 < m" using assms by (simp add: is_double_def)
  have m53: "m < 2 ^ 53" and e: "- 1074 \<le> e" "e \<le> 971" and norm: "2 ^ 52 \<le> m \<or> e = - 1074"
    using assms by (simp_all add: is_double_def)
  have b53: "bitlen m \<le> 53"
    using m53 by (simp add: bitlen_le_iff_power)
  have emax: "max (bitlen m + 51 + (e - 52)) (- 1022) = e + 52"
  proof (cases "2 ^ 52 \<le> m")
    case True
    then have "53 \<le> bitlen m" by (simp add: bitlen_ge_iff_power)
    then show ?thesis using b53 e by simp
  next
    case False
    then have "bitlen m \<le> 52" by (simp add: bitlen_le_iff_power)
    then show ?thesis using False norm by simp
  qed
  have r: "round_half_even (m * 2 ^ 52) (1 * 2 ^ nat (- (- 52))) = m"
    using round_half_even_exact [of "2 ^ 52" m] by simp
  have q: "e + 52 - 52 = e" "e - 52 - e = - 52" "\<not> (0::int) \<le> - 52" by simp_all
  have ne: "m * 2 ^ 52 \<noteq> 0" "m \<noteq> 2 ^ 53" "\<not> 971 < e"
    using pos m53 e by simp_all
  show ?thesis
    unfolding to_double_def Let_def floor_log2_shifted [OF pos] emax
    by (simp only: q r ne if_False)
qed

lemma num_mul_one:
  assumes "is_double a"
  shows "num_mul a (num_of_int 1) = a"
proof (cases a)
  case (Finite s m e)
  then show ?thesis
    using to_double_shifted [of s m e] assms by (simp add: num_of_int_1 del: power_numeral)
qed (simp_all add: num_of_int_1)

lemma num_mul_NaN_right: "num_mul a NaN = NaN"
  by (cases a) simp_all

lemma pint_nonneg: "0 \<le> k \<Longrightarrow> power_int (2::rat) k = of_int (2 ^ nat k)"
  by (simp add: power_int_def)

lemma pint_neg: "k < 0 \<Longrightarrow> power_int (2::rat) k = 1 / of_int (2 ^ nat (- k))"
  by (simp add: power_int_def field_simps)

lemma pint_pos: "0 < power_int (2::rat) k"
  by (simp add: power_int_def)

lemma bitlen_rat_bounds:
  assumes "0 < n"
  shows "power_int 2 (bitlen n - 1) \<le> (of_int n :: rat)" and "(of_int n :: rat) < power_int 2 (bitlen n)"
proof -
  have b: "1 \<le> bitlen n" using assms by (rule bitlen_pos)
  have "(2::int) ^ nat (bitlen n - 1) \<le> n" "n < 2 ^ nat (bitlen n)"
    using bitlen_bounds [OF assms] by simp_all
  then have "(of_int (2 ^ nat (bitlen n - 1)) :: rat) \<le> of_int n"
    "(of_int n :: rat) < of_int (2 ^ nat (bitlen n))"
    by (simp_all only: of_int_le_iff of_int_less_iff)
  then show "power_int 2 (bitlen n - 1) \<le> (of_int n :: rat)"
    and "(of_int n :: rat) < power_int 2 (bitlen n)"
    using b by (simp_all add: pint_nonneg)
qed

lemma floor_log2_test:
  assumes "0 < n" "0 < d"
  shows "(if 0 \<le> l then d * 2 ^ nat l \<le> n else d \<le> n * 2 ^ nat (- l)) \<longleftrightarrow>
         power_int 2 l \<le> (of_int n / of_int d :: rat)"
proof (cases "0 \<le> l")
  case True
  have "d * 2 ^ nat l \<le> n \<longleftrightarrow> (of_int (d * 2 ^ nat l) :: rat) \<le> of_int n"
    by (simp only: of_int_le_iff)
  also have "\<dots> \<longleftrightarrow> power_int 2 l \<le> (of_int n / of_int d :: rat)"
    using assms True by (simp add: pint_nonneg field_simps)
  finally show ?thesis using True by simp
next
  case False
  have "d \<le> n * 2 ^ nat (- l) \<longleftrightarrow> (of_int d :: rat) \<le> of_int (n * 2 ^ nat (- l))"
    by (simp only: of_int_le_iff)
  also have "\<dots> \<longleftrightarrow> power_int 2 l \<le> (of_int n / of_int d :: rat)"
    using assms False by (simp add: pint_neg field_simps)
  finally show ?thesis using False by simp
qed

lemma floor_log2_bounds:
  assumes "0 < n" "0 < d"
  shows "power_int 2 (floor_log2 n d) \<le> (of_int n / of_int d :: rat)"
    and "(of_int n / of_int d :: rat) < power_int 2 (floor_log2 n d + 1)"
proof -
  define r :: rat where "r = of_int n / of_int d"
  define l where "l = bitlen n - bitlen d"
  have dpos: "(0::rat) < of_int d" and npos: "(0::rat) < of_int n" using assms by simp_all
  have up: "r < power_int 2 (l + 1)"
  proof -
    have "of_int n < power_int (2::rat) (bitlen n)" using assms by (simp add: bitlen_rat_bounds)
    moreover have "power_int (2::rat) (bitlen d - 1) \<le> of_int d" using assms by (simp add: bitlen_rat_bounds)
    ultimately have "of_int n * power_int (2::rat) (bitlen d - 1) < power_int 2 (bitlen n) * of_int d"
      using pint_pos [of "bitlen d - 1"] npos
      by (metis le_less_trans mult_le_cancel_left_pos mult_less_cancel_right_pos dpos)
    then have "r < power_int 2 (bitlen n) / power_int 2 (bitlen d - 1)"
      using dpos pint_pos [of "bitlen d - 1"] by (simp add: r_def field_simps)
    also have "\<dots> = power_int 2 (bitlen n - (bitlen d - 1))"
      by (rule power_int_diff [symmetric]) simp
    also have "bitlen n - (bitlen d - 1) = l + 1"
      by (simp add: l_def)
    finally show ?thesis .
  qed
  have lo: "power_int 2 (l - 1) < r"
  proof -
    have "power_int (2::rat) (bitlen n - 1) \<le> of_int n" using assms by (simp add: bitlen_rat_bounds)
    moreover have "of_int d < power_int (2::rat) (bitlen d)" using assms by (simp add: bitlen_rat_bounds)
    ultimately have "power_int (2::rat) (bitlen n - 1) * of_int d < of_int n * power_int 2 (bitlen d)"
      using pint_pos [of "bitlen n - 1"] npos dpos
      by (metis le_less_trans mult_less_cancel_left_pos mult_le_cancel_right_pos)
    then have "power_int 2 (bitlen n - 1) / power_int 2 (bitlen d) < r"
      using dpos pint_pos [of "bitlen d"] by (simp add: r_def field_simps)
    moreover have "power_int (2::rat) (bitlen n - 1) / power_int 2 (bitlen d) =
        power_int 2 (bitlen n - 1 - bitlen d)"
      by (rule power_int_diff [symmetric]) simp
    moreover have "bitlen n - 1 - bitlen d = l - 1"
      by (simp add: l_def)
    ultimately show ?thesis by simp
  qed
  have fl: "floor_log2 n d = (if power_int 2 l \<le> r then l else l - 1)"
    unfolding floor_log2_def Let_def l_def [symmetric] r_def
    using floor_log2_test [OF assms, of l] by simp
  show "power_int 2 (floor_log2 n d) \<le> (of_int n / of_int d :: rat)"
    using lo by (simp add: fl r_def)
  show "(of_int n / of_int d :: rat) < power_int 2 (floor_log2 n d + 1)"
    using up by (auto simp add: fl r_def)
qed

lemma round_half_even_cases:
  "round_half_even n d = n div d \<or> (round_half_even n d = n div d + 1 \<and> d \<le> 2 * (n mod d))"
  by (auto simp: round_half_even_def Let_def)

lemma round_half_even_le:
  assumes "0 < d" "n \<le> k * d"
  shows "round_half_even n d \<le> k"
proof -
  have q: "n div d \<le> k"
    using assms by (metis zdiv_mono1 nonzero_mult_div_cancel_right less_irrefl)
  show ?thesis
  proof (cases "round_half_even n d = n div d")
    case True
    then show ?thesis using q by simp
  next
    case False
    then have r: "round_half_even n d = n div d + 1" and m: "d \<le> 2 * (n mod d)"
      using round_half_even_cases [of n d] by auto
    have "0 < n mod d" using m assms(1) by linarith
    then have "n div d * d < n"
      by (metis add.commute less_add_same_cancel2 mult.commute mult_div_mod_eq)
    then have "n div d * d < k * d" using assms(2) by linarith
    then have "n div d < k" using assms(1) by (simp add: mult_less_cancel_right)
    then show ?thesis using r by simp
  qed
qed

lemma round_half_even_ge:
  assumes "0 < d" "k * d \<le> n"
  shows "k \<le> round_half_even n d"
proof -
  have "k \<le> n div d"
    using assms by (metis zdiv_mono1 nonzero_mult_div_cancel_right less_irrefl)
  then show ?thesis
    using round_half_even_cases [of n d] by auto
qed

text \<open>Every result of \<open>to_double\<close> is a binary64 value in normal form.\<close>

lemma to_double_is_double:
  assumes "0 \<le> n" "0 < d"
  shows "is_double (to_double s n d x)"
proof (cases "n = 0")
  case True
  then show ?thesis by (simp add: to_double_def is_double_def)
next
  case False
  then have npos: "0 < n" using assms(1) by simp
  define r :: rat where "r = of_int n / of_int d"
  define e where "e = max (floor_log2 n d + x) (- 1022)"
  define sh where "sh = x - (e - 52)"
  define N where "N = (if 0 \<le> sh then n * 2 ^ nat sh else n)"
  define D where "D = (if 0 \<le> sh then d else d * 2 ^ nat (- sh))"
  define m where "m = round_half_even N D"
  have Dpos: "0 < D" using assms(2) by (simp add: D_def)
  have Nnn: "0 \<le> N" using npos by (simp add: N_def)
  have rpos: "0 < r" using npos assms(2) by (simp add: r_def)
  have quot: "(of_int N :: rat) / of_int D = r * power_int 2 sh"
  proof (cases "0 \<le> sh")
    case True
    then show ?thesis by (simp add: N_def D_def r_def pint_nonneg)
  next
    case False
    then show ?thesis by (simp add: N_def D_def r_def pint_neg)
  qed
  have m_eq: "m = (if 0 \<le> sh then round_half_even (n * 2 ^ nat sh) d
                   else round_half_even n (d * 2 ^ nat (- sh)))"
    by (simp add: m_def N_def D_def)
  have res: "to_double s n d x =
      (if m = 2 ^ 53 then (if 971 < e - 52 + 1 then Infinity s else Finite s (2 ^ 52) (e - 52 + 1))
       else if 971 < e - 52 then Infinity s else Finite s m (e - 52))"
    using False unfolding to_double_def Let_def e_def [symmetric] sh_def [symmetric] m_eq [symmetric]
    by (simp only: if_False)
  have m0: "0 \<le> m"
    unfolding m_def using Dpos Nnn by (intro round_half_even_ge) simp_all
  have upper: "m \<le> 2 ^ 53"
  proof -
    have "r < power_int 2 (floor_log2 n d + 1)"
      unfolding r_def using npos assms(2) by (rule floor_log2_bounds)
    then have "r * power_int 2 sh < power_int 2 (floor_log2 n d + 1) * power_int 2 sh"
      using pint_pos [of sh] by simp
    also have "\<dots> = power_int 2 (floor_log2 n d + 1 + sh)"
      by (rule power_int_add [symmetric]) simp
    also have "\<dots> \<le> power_int 2 53"
      by (rule power_int_increasing) (simp_all add: sh_def e_def)
    finally have "(of_int N :: rat) / of_int D < 2 ^ 53"
      by (simp add: quot)
    then have "(of_int N :: rat) < of_int (2 ^ 53 * D)"
      using Dpos by (simp add: field_simps)
    then have "N < 2 ^ 53 * D"
      by (simp only: of_int_less_iff)
    then show ?thesis
      unfolding m_def using Dpos by (intro round_half_even_le) simp_all
  qed
  have lower: "2 ^ 52 \<le> m" if "e = floor_log2 n d + x"
  proof -
    have "power_int 2 (floor_log2 n d) \<le> r"
      unfolding r_def using npos assms(2) by (rule floor_log2_bounds)
    then have "power_int 2 (floor_log2 n d) * power_int 2 sh \<le> r * power_int 2 sh"
      using pint_pos [of sh] by simp
    moreover have "power_int (2::rat) (floor_log2 n d) * power_int 2 sh =
        power_int 2 (floor_log2 n d + sh)"
      by (rule power_int_add [symmetric]) simp
    moreover have "floor_log2 n d + sh = 52"
      using that by (simp add: sh_def)
    ultimately have "(2::rat) ^ 52 \<le> of_int N / of_int D"
      by (simp add: quot)
    then have "(of_int (2 ^ 52 * D) :: rat) \<le> of_int N"
      using Dpos by (simp add: field_simps)
    then have "2 ^ 52 * D \<le> N"
      by (simp only: of_int_le_iff)
    then show ?thesis
      unfolding m_def using Dpos by (intro round_half_even_ge) simp_all
  qed
  have e_lo: "- 1022 \<le> e" by (simp add: e_def)
  have norm: "2 ^ 52 \<le> m \<or> e - 52 = - 1074"
  proof (cases "e = floor_log2 n d + x")
    case True
    then show ?thesis using lower by simp
  next
    case False
    then have "e = - 1022" by (simp add: e_def max_def split: if_splits)
    then show ?thesis by simp
  qed
  show ?thesis
    unfolding res using m0 upper e_lo norm
    by (simp add: is_double_def)
qed

text \<open>
  The finite result of \<open>to_double\<close> keeps the sign and is within half a unit in the last
  place of the exact value.
\<close>

lemma round_half_even_error:
  assumes "0 < d"
  shows "\<bar>of_int (round_half_even n d) - (of_int n / of_int d :: rat)\<bar> \<le> 1 / 2"
proof -
  define q where "q = n div d"
  define r where "r = n mod d"
  have n: "n = q * d + r" by (simp add: q_def r_def)
  have r: "0 \<le> r" "r < d" using assms by (simp_all add: r_def)
  have dpos: "(0::rat) < of_int d" using assms by simp
  have frac: "(of_int n / of_int d :: rat) = of_int q + of_int r / of_int d"
    using dpos by (simp add: n field_simps)
  have "(round_half_even n d = q \<and> 2 * r \<le> d) \<or> (round_half_even n d = q + 1 \<and> d \<le> 2 * r)"
    by (auto simp: round_half_even_def Let_def q_def r_def)
  then consider (down) "round_half_even n d = q" "2 * r \<le> d"
    | (up) "round_half_even n d = q + 1" "d \<le> 2 * r"
    by blast
  then show ?thesis
  proof cases
    case down
    have "(of_int (2 * r) :: rat) \<le> of_int d" using down(2) by (simp only: of_int_le_iff)
    then have "(of_int r / of_int d :: rat) \<le> 1 / 2"
      using dpos by (simp add: field_simps)
    moreover have "(0::rat) \<le> of_int r / of_int d" using r(1) dpos by simp
    ultimately show ?thesis by (simp add: down(1) frac)
  next
    case up
    have "(of_int d :: rat) \<le> of_int (2 * r)" using up(2) by (simp only: of_int_le_iff)
    then have "1 / 2 \<le> (of_int r / of_int d :: rat)"
      using dpos by (simp add: field_simps)
    moreover have "(of_int r / of_int d :: rat) < 1" using r(2) dpos by simp
    ultimately show ?thesis by (simp add: up(1) frac)
  qed
qed

lemma to_double_error:
  assumes "0 < n" "0 < d" and "to_double s n d x = Finite s' m e"
  shows "s' = s \<and>
    \<bar>(of_int m :: rat) * power_int 2 e - of_int n / of_int d * power_int 2 x\<bar>
      \<le> power_int 2 (max (floor_log2 n d + x) (- 1022) - 53)"
proof -
  define r :: rat where "r = of_int n / of_int d"
  define e0 where "e0 = max (floor_log2 n d + x) (- 1022)"
  define sh where "sh = x - (e0 - 52)"
  define N where "N = (if 0 \<le> sh then n * 2 ^ nat sh else n)"
  define D where "D = (if 0 \<le> sh then d else d * 2 ^ nat (- sh))"
  define k where "k = round_half_even N D"
  have Dpos: "0 < D" using assms(2) by (simp add: D_def)
  have quot: "(of_int N :: rat) / of_int D = r * power_int 2 sh"
  proof (cases "0 \<le> sh")
    case True
    then show ?thesis by (simp add: N_def D_def r_def pint_nonneg)
  next
    case False
    then show ?thesis by (simp add: N_def D_def r_def pint_neg)
  qed
  have k_eq: "k = (if 0 \<le> sh then round_half_even (n * 2 ^ nat sh) d
                   else round_half_even n (d * 2 ^ nat (- sh)))"
    by (simp add: k_def N_def D_def)
  have res: "to_double s n d x =
      (if k = 2 ^ 53 then (if 971 < e0 - 52 + 1 then Infinity s else Finite s (2 ^ 52) (e0 - 52 + 1))
       else if 971 < e0 - 52 then Infinity s else Finite s k (e0 - 52))"
    using assms(1) unfolding to_double_def Let_def e0_def [symmetric] sh_def [symmetric] k_eq [symmetric]
    by simp
  have val: "s' = s \<and> (of_int m :: rat) * power_int 2 e = of_int k * power_int 2 (e0 - 52)"
  proof (cases "k = 2 ^ 53")
    case True
    then have "s' = s" "m = 2 ^ 52" "e = e0 - 52 + 1"
      using assms(3) by (simp_all add: res split: if_splits)
    moreover have "power_int (2::rat) (e0 - 52 + 1) = power_int 2 (e0 - 52) * power_int 2 1"
      by (rule power_int_add) simp
    ultimately show ?thesis using True by simp
  next
    case False
    then have "s' = s" "m = k" "e = e0 - 52"
      using assms(3) by (simp_all add: res split: if_splits)
    then show ?thesis by simp
  qed
  have err: "\<bar>of_int k - r * power_int 2 sh\<bar> \<le> 1 / 2"
    using round_half_even_error [OF Dpos, of N] by (simp add: k_def quot)
  have scale: "r * power_int 2 sh * power_int 2 (e0 - 52) = r * power_int 2 x"
  proof -
    have "power_int (2::rat) sh * power_int 2 (e0 - 52) = power_int 2 (sh + (e0 - 52))"
      by (rule power_int_add [symmetric]) simp
    then show ?thesis by (simp add: sh_def mult.assoc)
  qed
  have half: "1 / 2 * power_int (2::rat) (e0 - 52) = power_int 2 (e0 - 53)"
  proof -
    have "power_int (2::rat) (e0 - 53 + 1) = power_int 2 (e0 - 53) * power_int 2 1"
      by (rule power_int_add) simp
    moreover have "e0 - 53 + 1 = e0 - 52" by simp
    ultimately have "power_int (2::rat) (e0 - 52) = power_int 2 (e0 - 53) * power_int 2 1"
      by (simp only:)
    then show ?thesis by simp
  qed
  have "\<bar>of_int k * power_int 2 (e0 - 52) - r * power_int 2 x\<bar> =
      \<bar>of_int k - r * power_int 2 sh\<bar> * power_int 2 (e0 - 52)"
  proof -
    have "of_int k * power_int 2 (e0 - 52) - r * power_int 2 x =
        (of_int k - r * power_int 2 sh) * power_int (2::rat) (e0 - 52)"
      by (simp add: scale [symmetric] algebra_simps)
    then show ?thesis
      using pint_pos [of "e0 - 52"] by (simp add: abs_mult)
  qed
  also have "\<dots> \<le> 1 / 2 * power_int 2 (e0 - 52)"
    using err pint_pos [of "e0 - 52"] by (simp add: mult_right_mono)
  finally have "\<bar>of_int k * power_int 2 (e0 - 52) - r * power_int 2 x\<bar> \<le> power_int 2 (e0 - 53)"
    by (simp only: half)
  then have "\<bar>(of_int m :: rat) * power_int 2 e - r * power_int 2 x\<bar> \<le> power_int 2 (e0 - 53)"
    by (simp only: val [THEN conjunct2])
  then show ?thesis
    unfolding r_def e0_def using val by blast
qed

lemma digits_value_nonneg: "0 \<le> digits_value ds"
proof -
  have "0 \<le> a \<Longrightarrow> 0 \<le> foldl (\<lambda>a c. 10 * a + (case digit_of c of Some k \<Rightarrow> k | None \<Rightarrow> 0)) a ds" for a
  proof (induction ds arbitrary: a)
    case Nil
    then show ?case by simp
  next
    case (Cons c ds)
    have "0 \<le> (case digit_of c of Some k \<Rightarrow> k | None \<Rightarrow> 0)"
      by (simp add: digit_of_def Let_def)
    then show ?case using Cons.prems by (simp add: Cons.IH)
  qed
  then show ?thesis by (simp add: digits_value_def)
qed

lemma is_double_simps:
  "is_double NaN" "is_double (Infinity s)" "is_double (Finite s 0 (- 1074))"
  by (simp_all add: is_double_def)

lemma is_double_mantissa: "is_double (Finite s m e) \<Longrightarrow> 0 \<le> m"
  by (simp add: is_double_def)

lemma parseFloat_is_double: "is_double (parseFloat str)"
  by (simp add: parseFloat_def Let_def to_double_is_double digits_value_nonneg is_double_simps
      split: prod.splits list.splits)

lemma num_mul_is_double:
  assumes "is_double a" "is_double b"
  shows "is_double (num_mul a b)"
proof (cases a)
  case a: (Finite s m e)
  show ?thesis
  proof (cases b)
    case (Finite t n f)
    then have "0 \<le> m * n"
      using assms a by (simp add: is_double_mantissa)
    then show ?thesis
      using a Finite by (simp add: to_double_is_double)
  qed (simp_all add: a is_double_simps)
next
  case a: (Infinity s)
  show ?thesis by (cases b) (simp_all add: a is_double_simps)
qed (simp add: is_double_simps)

lemma num_div_is_double:
  assumes "is_double a" "is_double b"
  shows "is_double (num_div a b)"
proof (cases a)
  case a: (Finite s m e)
  show ?thesis
  proof (cases b)
    case (Finite t n f)
    then have "0 \<le> m" "0 \<le> n"
      using assms a by (simp_all add: is_double_mantissa)
    then show ?thesis
      using a Finite by (simp add: to_double_is_double is_double_simps)
  qed (simp_all add: a is_double_simps)
next
  case a: (Infinity s)
  show ?thesis by (cases b) (simp_all add: a is_double_simps)
qed (simp add: is_double_simps)

subsection \<open>Evaluation of the sample data\<close>

lemmas number_eval = num_of_int_def to_double_def floor_log2_def round_half_even_def Let_def
  compute_bitlen

lemmas parseFloat_eval = parseFloat_def exponent_part_def digits_value_def is_digit_def
  digit_of_def is_white_def

lemma parseFloat_10: "parseFloat ''10'' = Finite False 5629499534213120 (- 49)"
  by (simp add: parseFloat_eval number_eval)

lemma parseFloat_Infinity: "parseFloat ''Infinity'' = Infinity False"
  by (simp add: parseFloat_eval)

lemma parseFloat_abc: "parseFloat ''abc'' = NaN"
  by (simp add: parseFloat_eval)

lemma known_numbers:
  "parseFloat ''0.1'' = Finite False 7205759403792794 (- 56)"
  "parseFloat ''1e3'' = num_of_int 1000"
  "parseFloat ''  12.5abc'' = Finite False 7036874417766400 (- 49)"
  "parseFloat ''-0'' = Finite True 0 (- 1074)"
  "parseFloat ''.'' = NaN"
  "num_div (num_of_int 1) (num_of_int 3) = Finite False 6004799503160661 (- 54)"
  "num_div (num_of_int 1) (num_of_int 0) = Infinity False"
  "num_mul (Infinity False) (num_of_int 0) = NaN"
  by (simp_all add: parseFloat_eval number_eval)

lemma sample_fetches:
  "fetchAllCurrencies sample_upstream = Inr sample_currencies"
  "fetchAllRates sample_upstream ''USD'' = Inr usd_rates"
  "fetchAllRates sample_upstream ''EUR'' = Inr eur_rates"
  "fetchAllCurrencies failing_upstream = Inl (UpstreamFetchError ''Failed to fetch currency list'')"
  "fetchAllRates failing_upstream base = Inl (UpstreamFetchError ''Failed to fetch exchange rates'')"
  "\<not> rates_rejected_first failing_upstream"
  by (simp_all add: fetchAllCurrencies_def fetchAllRates_def sample_upstream_def failing_upstream_def)

lemma sample_needs:
  "needs_full_refresh now initial_cache"
  "needs_full_refresh 400000 sample_cache"
  "\<not> needs_full_refresh 2000 sample_cache"
  by (simp_all add: needs_full_refresh_def initial_cache_def sample_cache_def CACHE_EXPIRATION_def)


subsection \<open>The refresh policy\<close>

lemma needs_full_refresh_iff:
  "cache_inv c \<Longrightarrow>
   needs_full_refresh now c \<longleftrightarrow>
     (currencies c = None \<or> lastUpdated c = None \<or>
      (\<exists>t. lastUpdated c = Some t \<and> 5 * 60 * 1000 < now - t))"
  by (auto simp: needs_full_refresh_def cache_inv_def initial_cache_def CACHE_EXPIRATION_def
      split: option.splits)

lemma updateCache_full:
  "needs_full_refresh now c \<Longrightarrow>
   fst (updateCache up now base c) = [GetCurrencies, GetLatest base]"
  by (simp add: updateCache_def split: sum.splits)

lemma updateCache_full_ok:
  "needs_full_refresh now c \<Longrightarrow> currencies_response up = Some cs \<Longrightarrow>
   rates_response up base = Some rs \<Longrightarrow>
   updateCache up now base c =
     ([GetCurrencies, GetLatest base], None,
      \<lparr>currencies = Some cs, rates = Some rs, baseCurrency = Some base, lastUpdated = Some now\<rparr>)"
  by (simp add: updateCache_def fetchAllCurrencies_def fetchAllRates_def)

lemma updateCache_rates:
  "\<not> needs_full_refresh now c \<Longrightarrow> baseCurrency c \<noteq> Some base \<Longrightarrow>
   fst (updateCache up now base c) = [GetLatest base] \<and>
   currencies (snd (snd (updateCache up now base c))) = currencies c"
  by (simp add: updateCache_def split: sum.splits)

lemma updateCache_rates_ok:
  "\<not> needs_full_refresh now c \<Longrightarrow> baseCurrency c \<noteq> Some base \<Longrightarrow>
   rates_response up base = Some rs \<Longrightarrow>
   updateCache up now base c =
     ([GetLatest base], None,
      c\<lparr>rates := Some rs, baseCurrency := Some base, lastUpdated := Some now\<rparr>)"
  by (simp add: updateCache_def fetchAllRates_def)

lemma updateCache_fresh:
  "\<not> needs_full_refresh now c \<Longrightarrow> baseCurrency c = Some base \<Longrightarrow>
   updateCache up now base c = ([], None, c)"
  by (simp add: updateCache_def)

lemma updateCache_error_unchanged:
  "updateCache up now base c = (calls, Some e, c') \<Longrightarrow>
   c' = c \<and> (\<exists>msg. e = UpstreamFetchError msg)"
  by (auto simp: updateCache_def fetchAllCurrencies_def fetchAllRates_def
      split: if_splits sum.splits option.splits)

lemma updateCache_fetch_fails:
  "fetch_fails up now base c \<Longrightarrow>
   \<exists>calls msg. updateCache up now base c = (calls, Some (UpstreamFetchError msg), c)"
  by (auto simp: fetch_fails_def updateCache_def fetchAllCurrencies_def fetchAllRates_def
      split: if_splits sum.splits option.splits)

lemma updateCache_ok_iff:
  "(\<exists>calls c'. updateCache up now base c = (calls, None, c')) \<longleftrightarrow> \<not> fetch_fails up now base c"
  by (auto simp: fetch_fails_def updateCache_def fetchAllCurrencies_def fetchAllRates_def
      split: if_splits sum.splits option.splits)

lemma cache_inv_initial: "cache_inv initial_cache"
  by (simp add: cache_inv_def)

lemma cache_inv_sample: "cache_inv sample_cache"
  by (simp add: cache_inv_def sample_cache_def)

lemma cache_inv_updateCache:
  "cache_inv c \<Longrightarrow> 0 < now \<Longrightarrow> cache_inv (snd (snd (updateCache up now base c)))"
  by (auto simp: updateCache_def cache_inv_def initial_cache_def needs_full_refresh_def
      split: sum.splits option.splits)

lemma updateCache_ok_fields:
  "updateCache up now base c = (calls, None, c') \<Longrightarrow>
   currencies c' \<noteq> None \<and> baseCurrency c' = Some base \<and> (cache_inv c \<longrightarrow> rates c' \<noteq> None)"
  by (auto simp: updateCache_def cache_inv_def initial_cache_def needs_full_refresh_def
      split: sum.splits option.splits if_splits)

text \<open>
  Claim C1. A call \<^verbatim>\<open>updateCache(base)\<close> on a cache without snapshot, or with a snapshot
  older than 5 minutes, requests the currency list and the rate table for \<open>base\<close>, and
  when both arrive replaces the whole snapshot; on a snapshot that is not older but has
  another base it requests the rate table only, and sets \<open>rates\<close>, \<open>baseCurrency\<close> and
  \<open>lastUpdated\<close>; on a snapshot that is not older and has this base it requests nothing
  and leaves the cache as it is.
\<close>

theorem updateCache_policy:
  assumes "cache_inv c"
  shows "(currencies c = None \<or> lastUpdated c = None \<or>
          (\<exists>t. lastUpdated c = Some t \<and> 5 * 60 * 1000 < now - t) \<longrightarrow>
            fst (updateCache up now base c) = [GetCurrencies, GetLatest base] \<and>
            (\<forall>cs rs. currencies_response up = Some cs \<and> rates_response up base = Some rs \<longrightarrow>
               snd (updateCache up now base c) =
                 (None, \<lparr>currencies = Some cs, rates = Some rs, baseCurrency = Some base,
                         lastUpdated = Some now\<rparr>)))
       \<and> (currencies c \<noteq> None \<and> (\<exists>t. lastUpdated c = Some t \<and> now - t \<le> 5 * 60 * 1000) \<and>
          baseCurrency c \<noteq> Some base \<longrightarrow>
            fst (updateCache up now base c) = [GetLatest base] \<and>
            (\<forall>rs. rates_response up base = Some rs \<longrightarrow>
               snd (updateCache up now base c) =
                 (None, c\<lparr>rates := Some rs, baseCurrency := Some base, lastUpdated := Some now\<rparr>)))
       \<and> (currencies c \<noteq> None \<and> (\<exists>t. lastUpdated c = Some t \<and> now - t \<le> 5 * 60 * 1000) \<and>
          baseCurrency c = Some base \<longrightarrow>
            updateCache up now base c = ([], None, c))"
proof (intro conjI impI allI)
  assume cold: "currencies c = None \<or> lastUpdated c = None \<or>
      (\<exists>t. lastUpdated c = Some t \<and> 5 * 60 * 1000 < now - t)"
  then have n: "needs_full_refresh now c"
    using assms by (simp add: needs_full_refresh_iff)
  then show "fst (updateCache up now base c) = [GetCurrencies, GetLatest base]"
    by (rule updateCache_full)
  fix cs rs
  assume "currencies_response up = Some cs \<and> rates_response up base = Some rs"
  then show "snd (updateCache up now base c) =
      (None, \<lparr>currencies = Some cs, rates = Some rs, baseCurrency = Some base,
              lastUpdated = Some now\<rparr>)"
    using n by (simp add: updateCache_full_ok)
next
  assume a: "currencies c \<noteq> None \<and> (\<exists>t. lastUpdated c = Some t \<and> now - t \<le> 5 * 60 * 1000) \<and>
      baseCurrency c \<noteq> Some base"
  then have n: "\<not> needs_full_refresh now c"
    using assms by (auto simp: needs_full_refresh_iff)
  then show "fst (updateCache up now base c) = [GetLatest base]"
    using a by (simp add: updateCache_rates)
  fix rs
  assume "rates_response up base = Some rs"
  then show "snd (updateCache up now base c) =
      (None, c\<lparr>rates := Some rs, baseCurrency := Some base, lastUpdated := Some now\<rparr>)"
    using n a by (simp add: updateCache_rates_ok)
next
  assume a: "currencies c \<noteq> None \<and> (\<exists>t. lastUpdated c = Some t \<and> now - t \<le> 5 * 60 * 1000) \<and>
      baseCurrency c = Some base"
  then have "\<not> needs_full_refresh now c"
    using assms by (auto simp: needs_full_refresh_iff)
  then show "updateCache up now base c = ([], None, c)"
    using a by (simp add: updateCache_fresh)
qed

theorem updateCache_policy_witness:
  "cache_inv initial_cache \<and> cache_inv sample_cache
   \<and> updateCache sample_upstream 1000 ''USD'' initial_cache =
       ([GetCurrencies, GetLatest ''USD''], None, sample_cache)
   \<and> updateCache sample_upstream 301001 ''USD'' sample_cache =
       ([GetCurrencies, GetLatest ''USD''], None, sample_cache\<lparr>lastUpdated := Some 301001\<rparr>)
   \<and> updateCache sample_upstream 301000 ''EUR'' sample_cache =
       ([GetLatest ''EUR''], None,
        sample_cache\<lparr>rates := Some eur_rates, baseCurrency := Some ''EUR'', lastUpdated := Some 301000\<rparr>)
   \<and> updateCache sample_upstream 301000 ''USD'' sample_cache = ([], None, sample_cache)"
proof -
  have cold: "currencies initial_cache = None"
    by (simp add: initial_cache_def)
  have resp: "currencies_response sample_upstream = Some sample_currencies"
    "rates_response sample_upstream ''USD'' = Some usd_rates"
    "rates_response sample_upstream ''EUR'' = Some eur_rates"
    by (simp_all add: sample_upstream_def)
  have fields: "currencies sample_cache \<noteq> None" "lastUpdated sample_cache = Some 1000"
    "baseCurrency sample_cache = Some ''USD''"
    by (simp_all add: sample_cache_def)
  have 1: "updateCache sample_upstream 1000 ''USD'' initial_cache =
      ([GetCurrencies, GetLatest ''USD''], None, sample_cache)"
    using updateCache_policy [OF cache_inv_initial, of 1000 sample_upstream "''USD''"] cold resp
    by (simp add: prod_eq_iff sample_cache_def)
  have 2: "updateCache sample_upstream 301001 ''USD'' sample_cache =
      ([GetCurrencies, GetLatest ''USD''], None, sample_cache\<lparr>lastUpdated := Some 301001\<rparr>)"
    using updateCache_policy [OF cache_inv_sample, of 301001 sample_upstream "''USD''"] fields resp
    by (simp add: prod_eq_iff sample_cache_def)
  have 3: "updateCache sample_upstream 301000 ''EUR'' sample_cache =
      ([GetLatest ''EUR''], None,
       sample_cache\<lparr>rates := Some eur_rates, baseCurrency := Some ''EUR'', lastUpdated := Some 301000\<rparr>)"
    using updateCache_policy [OF cache_inv_sample, of 301000 sample_upstream "''EUR''"] fields resp
    by (simp add: prod_eq_iff)
  have 4: "updateCache sample_upstream 301000 ''USD'' sample_cache = ([], None, sample_cache)"
    using updateCache_policy [OF cache_inv_sample, of 301000 sample_upstream "''USD''"] fields
    by simp
  show ?thesis
    using 1 2 3 4 cache_inv_initial cache_inv_sample by simp
qed

text \<open>
  Claim C7. A refresh taken because a snapshot that is not older than 5 minutes has
  another base than the requested one sends the request for the rate table and no
  other, and the currency list after it is the currency list before it.
\<close>

theorem base_change_keeps_currencies:
  assumes "cache_inv c" and "currencies c \<noteq> None" and "lastUpdated c = Some t"
    and "now - t \<le> 5 * 60 * 1000" and "baseCurrency c \<noteq> Some base"
  shows "fst (updateCache up now base c) = [GetLatest base] \<and>
         currencies (snd (snd (updateCache up now base c))) = currencies c"
proof -
  have "\<not> needs_full_refresh now c"
    using assms by (simp add: needs_full_refresh_iff)
  then show ?thesis
    using assms(5) by (rule updateCache_rates)
qed

theorem base_change_keeps_currencies_witness:
  "cache_inv sample_cache \<and> currencies sample_cache \<noteq> None \<and> lastUpdated sample_cache = Some 1000
   \<and> (2000::int) - 1000 \<le> 5 * 60 * 1000 \<and> baseCurrency sample_cache \<noteq> Some ''EUR''
   \<and> fst (updateCache sample_upstream 2000 ''EUR'' sample_cache) = [GetLatest ''EUR'']
   \<and> currencies (snd (snd (updateCache sample_upstream 2000 ''EUR'' sample_cache))) =
       Some sample_currencies
   \<and> fst (updateCache failing_upstream 2000 ''EUR'' sample_cache) = [GetLatest ''EUR'']
   \<and> currencies (snd (snd (updateCache failing_upstream 2000 ''EUR'' sample_cache))) =
       Some sample_currencies"
proof -
  have h: "currencies sample_cache \<noteq> None" "lastUpdated sample_cache = Some 1000"
    "(2000::int) - 1000 \<le> 5 * 60 * 1000" "baseCurrency sample_cache \<noteq> Some ''EUR''"
    by (simp_all add: sample_cache_def)
  have c: "currencies sample_cache = Some sample_currencies"
    by (simp add: sample_cache_def)
  show ?thesis
    using base_change_keeps_currencies [OF cache_inv_sample h, of sample_upstream]
      base_change_keeps_currencies [OF cache_inv_sample h, of failing_upstream]
      cache_inv_sample h c
    by simp
qed

text \<open>
  Claim C3. When a request of a refresh fails, \<^verbatim>\<open>updateCache\<close> throws the error of the
  failed fetch and leaves all four fields of the cache as they were; the routes answer
  with that error (status 500, or 400 from the conversion routes) and not with data of
  the old snapshot.
\<close>

theorem failed_refresh_keeps_cache:
  "(\<forall>calls e c'. updateCache up now base c = (calls, Some e, c') \<longrightarrow>
      c' = c \<and> (\<exists>msg. e = UpstreamFetchError msg))
   \<and> (fetch_fails up now base c \<longrightarrow>
        (\<exists>calls msg. updateCache up now base c = (calls, Some (UpstreamFetchError msg), c)))
   \<and> (fetch_fails up now ''USD'' (currencyCache st) \<longrightarrow>
        (\<exists>calls msg. get_currencies up now st = (Failure 500 (UpstreamFetchError msg), calls, st)))
   \<and> (fetch_fails up now (case q of None \<Rightarrow> ''USD'' | Some b \<Rightarrow> b) (currencyCache st) \<longrightarrow>
        (\<exists>calls msg. get_rates up now q st = (Failure 500 (UpstreamFetchError msg), calls, st)))
   \<and> (fetch_fails up now ''USD'' (currencyCache st) \<and> \<not> isNaN (parseFloat a) \<longrightarrow>
        (\<exists>calls msg. convert up now f t a st = (Failure 400 (UpstreamFetchError msg), calls, st)))
   \<and> (fetch_fails up now ''USD'' (currencyCache st) \<and> bulk_from body = Some f \<and> f \<noteq> [] \<and>
       bulk_amounts body = Some entries \<longrightarrow>
        (\<exists>calls msg. convert_bulk up now body st = (Failure 400 (UpstreamFetchError msg), calls, st)))"
proof -
  have 1: "\<forall>calls e c'. updateCache up now base c = (calls, Some e, c') \<longrightarrow>
      c' = c \<and> (\<exists>msg. e = UpstreamFetchError msg)"
    using updateCache_error_unchanged by blast
  have 2: "fetch_fails up now base c \<longrightarrow>
      (\<exists>calls msg. updateCache up now base c = (calls, Some (UpstreamFetchError msg), c))"
    using updateCache_fetch_fails by blast
  have 3: "fetch_fails up now ''USD'' (currencyCache st) \<longrightarrow>
      (\<exists>calls msg. get_currencies up now st = (Failure 500 (UpstreamFetchError msg), calls, st))"
  proof
    assume "fetch_fails up now ''USD'' (currencyCache st)"
    then obtain calls msg where
      "updateCache up now ''USD'' (currencyCache st) =
         (calls, Some (UpstreamFetchError msg), currencyCache st)"
      using updateCache_fetch_fails by blast
    then show "\<exists>calls msg. get_currencies up now st = (Failure 500 (UpstreamFetchError msg), calls, st)"
      by (simp add: get_currencies_def)
  qed
  have 4: "fetch_fails up now (case q of None \<Rightarrow> ''USD'' | Some b \<Rightarrow> b) (currencyCache st) \<longrightarrow>
      (\<exists>calls msg. get_rates up now q st = (Failure 500 (UpstreamFetchError msg), calls, st))"
  proof
    assume "fetch_fails up now (case q of None \<Rightarrow> ''USD'' | Some b \<Rightarrow> b) (currencyCache st)"
    then obtain calls msg where
      "updateCache up now (case q of None \<Rightarrow> ''USD'' | Some b \<Rightarrow> b) (currencyCache st) =
         (calls, Some (UpstreamFetchError msg), currencyCache st)"
      using updateCache_fetch_fails by blast
    then show "\<exists>calls msg. get_rates up now q st = (Failure 500 (UpstreamFetchError msg), calls, st)"
      by (simp add: get_rates_def)
  qed
  have 5: "fetch_fails up now ''USD'' (currencyCache st) \<and> \<not> isNaN (parseFloat a) \<longrightarrow>
      (\<exists>calls msg. convert up now f t a st = (Failure 400 (UpstreamFetchError msg), calls, st))"
  proof
    assume a: "fetch_fails up now ''USD'' (currencyCache st) \<and> \<not> isNaN (parseFloat a)"
    then obtain calls msg where
      "updateCache up now ''USD'' (currencyCache st) =
         (calls, Some (UpstreamFetchError msg), currencyCache st)"
      using updateCache_fetch_fails by blast
    then show "\<exists>calls msg. convert up now f t a st = (Failure 400 (UpstreamFetchError msg), calls, st)"
      using a by (simp add: convert_def)
  qed
  have 6: "fetch_fails up now ''USD'' (currencyCache st) \<and> bulk_from body = Some f \<and> f \<noteq> [] \<and>
      bulk_amounts body = Some entries \<longrightarrow>
      (\<exists>calls msg. convert_bulk up now body st = (Failure 400 (UpstreamFetchError msg), calls, st))"
  proof
    assume a: "fetch_fails up now ''USD'' (currencyCache st) \<and> bulk_from body = Some f \<and> f \<noteq> [] \<and>
        bulk_amounts body = Some entries"
    then obtain calls msg where
      "updateCache up now ''USD'' (currencyCache st) =
         (calls, Some (UpstreamFetchError msg), currencyCache st)"
      using updateCache_fetch_fails by blast
    then show "\<exists>calls msg. convert_bulk up now body st = (Failure 400 (UpstreamFetchError msg), calls, st)"
      using a by (simp add: convert_bulk_def)
  qed
  show ?thesis
    by (intro conjI) (fact 1, fact 2, fact 3, fact 4, fact 5, fact 6)
qed

theorem failed_refresh_keeps_cache_witness:
  "fetch_fails failing_upstream 400000 ''USD'' sample_cache
   \<and> \<not> isNaN (parseFloat ''10'')
   \<and> updateCache failing_upstream 400000 ''USD'' sample_cache =
       ([GetCurrencies, GetLatest ''USD''],
        Some (UpstreamFetchError ''Failed to fetch currency list''), sample_cache)
   \<and> get_currencies failing_upstream 400000 sample_state =
       (Failure 500 (UpstreamFetchError ''Failed to fetch currency list''),
        [GetCurrencies, GetLatest ''USD''], sample_state)
   \<and> get_rates failing_upstream 400000 None sample_state =
       (Failure 500 (UpstreamFetchError ''Failed to fetch currency list''),
        [GetCurrencies, GetLatest ''USD''], sample_state)
   \<and> convert failing_upstream 400000 ''USD'' ''EUR'' ''10'' sample_state =
       (Failure 400 (UpstreamFetchError ''Failed to fetch currency list''),
        [GetCurrencies, GetLatest ''USD''], sample_state)
   \<and> convert_bulk failing_upstream 400000
        \<lparr>bulk_from = Some ''USD'', bulk_amounts = Some [(''EUR'', JString ''10'')]\<rparr> sample_state =
       (Failure 400 (UpstreamFetchError ''Failed to fetch currency list''),
        [GetCurrencies, GetLatest ''USD''], sample_state)"
proof -
  have ff: "fetch_fails failing_upstream 400000 ''USD'' sample_cache"
    by (simp add: fetch_fails_def sample_needs failing_upstream_def)
  have nn: "\<not> isNaN (parseFloat ''10'')"
    by (simp add: isNaN_def parseFloat_10)
  have u: "updateCache failing_upstream 400000 ''USD'' sample_cache =
      ([GetCurrencies, GetLatest ''USD''],
       Some (UpstreamFetchError ''Failed to fetch currency list''), sample_cache)"
    by (simp add: updateCache_def sample_needs sample_fetches)
  have st: "currencyCache sample_state = sample_cache"
    by (simp add: sample_state_def)
  show ?thesis
    using failed_refresh_keeps_cache [of failing_upstream 400000 "''USD''" sample_cache sample_state
        None "''10''" "''USD''" "''EUR''"
        "\<lparr>bulk_from = Some ''USD'', bulk_amounts = Some [(''EUR'', JString ''10'')]\<rparr>"
        "[(''EUR'', JString ''10'')]"]
      ff nn u
    by (simp add: st get_currencies_def get_rates_def convert_def convert_bulk_def)
qed

subsection \<open>Single conversion\<close>

lemma num_div_NaN_right: "num_div a NaN = NaN"
  by (cases a) simp_all

lemma sample_tables:
  "sample_currencies ''USD'' \<noteq> None" "sample_currencies ''EUR'' \<noteq> None"
  "sample_currencies ''THB'' \<noteq> None" "sample_currencies ''XAU'' \<noteq> None"
  "sample_currencies ''ZZZ'' = None"
  "rate_of usd_rates ''EUR'' = Finite False 4503599627370496 (- 53)"
  "rate_of usd_rates ''THB'' = Finite False 6896136929411072 (- 47)"
  "usd_rates ''XAU'' = None" "rate_of usd_rates ''XAU'' = NaN"
  by (simp_all add: sample_currencies_def usd_rates_def rate_of_def)

lemma sample_first_refresh:
  "updateCache sample_upstream 1000 ''USD'' (currencyCache initial_state) =
     ([GetCurrencies, GetLatest ''USD''], None, sample_cache)"
  by (simp add: updateCache_def initial_state_def sample_needs sample_fetches sample_cache_def)

lemma sample_cache_fields:
  "currencies sample_cache = Some sample_currencies" "rates sample_cache = Some usd_rates"
  "baseCurrency sample_cache = Some ''USD''" "lastUpdated sample_cache = Some 1000"
  by (simp_all add: sample_cache_def)

lemma truthy_at_own: "object key \<noteq> None \<Longrightarrow> truthy_at object key"
  by (simp add: truthy_at_def)

lemma truthy_at_dom: "\<not> inherited key \<Longrightarrow> truthy_at object key \<longleftrightarrow> key \<in> dom object"
  by (simp add: truthy_at_def domIff)

lemma truthy_at_inherited: "inherited key \<Longrightarrow> truthy_at object key"
  by (simp add: truthy_at_def)

lemma inherited_names:
  "inherited ''constructor''" "inherited ''__proto__''" "inherited ''toString''"
  "\<not> inherited ''anonymous''" "\<not> inherited ''alice''" "\<not> inherited ''bob''"
  "\<not> inherited ''USD''" "\<not> inherited ''EUR''" "\<not> inherited ''THB''"
  "\<not> inherited ''XAU''" "\<not> inherited ''ZZZ''"
  by (simp_all add: inherited_def object_prototype_names_def)

lemma convert_truthy:
  assumes "\<not> isNaN (parseFloat a)"
    and "updateCache up now ''USD'' (currencyCache st) = (calls, None, c)"
    and "currencies c = Some cur" and "rates c = Some rs"
    and "truthy_at cur f" and "truthy_at cur t"
  shows "convert up now f t a st =
     (Success \<lparr>conv_from = f, conv_to = t, conv_amount = parseFloat a,
        conv_rate = num_mul (if f = ''USD'' then num_of_int 1 else num_div (num_of_int 1) (rate_of rs f))
                      (if t = ''USD'' then num_of_int 1 else rate_of rs t),
        conv_result = num_mul (parseFloat a)
          (num_mul (if f = ''USD'' then num_of_int 1 else num_div (num_of_int 1) (rate_of rs f))
             (if t = ''USD'' then num_of_int 1 else rate_of rs t))\<rparr>,
      calls, st\<lparr>currencyCache := c\<rparr>)"
  using assms by (simp add: convert_def Let_def usdRates_at_def)

lemma convert_valid:
  assumes "\<not> isNaN (parseFloat a)"
    and "updateCache up now ''USD'' (currencyCache st) = (calls, None, c)"
    and "currencies c = Some cur" and "rates c = Some rs"
    and "cur f \<noteq> None" and "cur t \<noteq> None"
  shows "convert up now f t a st =
     (Success \<lparr>conv_from = f, conv_to = t, conv_amount = parseFloat a,
        conv_rate = num_mul (if f = ''USD'' then num_of_int 1 else num_div (num_of_int 1) (rate_of rs f))
                      (if t = ''USD'' then num_of_int 1 else rate_of rs t),
        conv_result = num_mul (parseFloat a)
          (num_mul (if f = ''USD'' then num_of_int 1 else num_div (num_of_int 1) (rate_of rs f))
             (if t = ''USD'' then num_of_int 1 else rate_of rs t))\<rparr>,
      calls, st\<lparr>currencyCache := c\<rparr>)"
  using assms(5,6) by (intro convert_truthy [OF assms(1-4)] truthy_at_own)

lemma convert_invalid_code:
  assumes "\<not> isNaN (parseFloat a)"
    and "updateCache up now ''USD'' (currencyCache st) = (calls, None, c)"
    and "currencies c = Some cur" and "\<not> truthy_at cur f \<or> \<not> truthy_at cur t"
  shows "convert up now f t a st =
     (Failure 400 (ValidationError ''Invalid currency code''), calls, st\<lparr>currencyCache := c\<rparr>)"
  using assms by (auto simp add: convert_def Let_def)

lemma convert_not_a_number:
  "isNaN (parseFloat a) \<Longrightarrow>
   convert up now f t a st = (Failure 400 (ValidationError ''Amount must be a number''), [], st)"
  by (simp add: convert_def)

lemma convert_history:
  "conversionHistoryStore (snd (snd (convert up now f t a st))) = conversionHistoryStore st"
  by (simp add: convert_def Let_def split: prod.splits option.splits sum.splits)

text \<open>
  Claim C2. A single conversion with codes \<open>f\<close> and \<open>t\<close> of the currency list and an amount
  that parses succeeds, and on the snapshot it uses, of base \<open>B\<close>, its rate is
  \<open>fromToBase * baseToTo\<close>, where \<open>fromToBase\<close> is 1 if \<open>f = B\<close> and \<open>1 / rates[f]\<close> otherwise, and
  \<open>baseToTo\<close> is 1 if \<open>t = B\<close> and \<open>rates[t]\<close> otherwise; its result is the amount times the rate.
\<close>

theorem convert_cross_rate:
  assumes "updateCache up now ''USD'' (currencyCache st) = (calls, None, snapshot)"
    and "currencies snapshot = Some cur" and "rates snapshot = Some rs"
    and "f \<in> dom cur" and "t \<in> dom cur" and "\<not> isNaN (parseFloat a)"
  shows "\<exists>conv B. fst (convert up now f t a st) = Success conv \<and> baseCurrency snapshot = Some B \<and>
     conv_rate conv =
       num_mul (if f = B then num_of_int 1 else num_div (num_of_int 1) (rate_of rs f))
         (if t = B then num_of_int 1 else rate_of rs t) \<and>
     conv_result conv = num_mul (parseFloat a) (conv_rate conv) \<and>
     conv_amount conv = parseFloat a \<and> conv_from conv = f \<and> conv_to conv = t"
proof -
  have b: "baseCurrency snapshot = Some ''USD''"
    using updateCache_ok_fields [OF assms(1)] by simp
  have "cur f \<noteq> None" "cur t \<noteq> None"
    using assms(4,5) by auto
  then show ?thesis
    using convert_valid [OF assms(6) assms(1) assms(2) assms(3)] b by simp
qed

theorem convert_cross_rate_witness:
  "updateCache sample_upstream 1000 ''USD'' (currencyCache initial_state) =
     ([GetCurrencies, GetLatest ''USD''], None, sample_cache)
   \<and> currencies sample_cache = Some sample_currencies \<and> rates sample_cache = Some usd_rates
   \<and> ''EUR'' \<in> dom sample_currencies \<and> ''THB'' \<in> dom sample_currencies
   \<and> \<not> isNaN (parseFloat ''10'')
   \<and> fst (convert sample_upstream 1000 ''EUR'' ''THB'' ''10'' initial_state) =
       Success \<lparr>conv_from = ''EUR'', conv_to = ''THB'',
         conv_amount = Finite False 5629499534213120 (- 49),
         conv_rate = Finite False 6896136929411072 (- 46),
         conv_result = Finite False 8620171161763840 (- 43)\<rparr>"
proof -
  have d: "''EUR'' \<in> dom sample_currencies" "''THB'' \<in> dom sample_currencies"
    using sample_tables by auto
  have nn: "\<not> isNaN (parseFloat ''10'')"
    by (simp add: isNaN_def parseFloat_10)
  obtain conv B where c: "fst (convert sample_upstream 1000 ''EUR'' ''THB'' ''10'' initial_state) = Success conv"
    and B: "baseCurrency sample_cache = Some B"
    and f: "conv_rate conv =
       num_mul (if ''EUR'' = B then num_of_int 1 else num_div (num_of_int 1) (rate_of usd_rates ''EUR''))
         (if ''THB'' = B then num_of_int 1 else rate_of usd_rates ''THB'')"
    and g: "conv_result conv = num_mul (parseFloat ''10'') (conv_rate conv)"
      "conv_amount conv = parseFloat ''10''" "conv_from conv = ''EUR''" "conv_to conv = ''THB''"
    using convert_cross_rate [OF sample_first_refresh sample_cache_fields(1,2) d nn] by blast
  have "B = ''USD''"
    using B by (simp add: sample_cache_fields)
  then have "conv_rate conv = Finite False 6896136929411072 (- 46)"
    using f by (simp add: sample_tables number_eval)
  then have "conv = \<lparr>conv_from = ''EUR'', conv_to = ''THB'',
         conv_amount = Finite False 5629499534213120 (- 49),
         conv_rate = Finite False 6896136929411072 (- 46),
         conv_result = Finite False 8620171161763840 (- 43)\<rparr>"
    using g by (simp add: parseFloat_10 number_eval)
  then show ?thesis
    using c d nn sample_first_refresh sample_cache_fields by simp
qed

text \<open>
  Claim C10. A code \<open>x\<close> other than \<^verbatim>\<open>USD\<close> that is a key of the currency list but has no
  entry in the rate table makes the conversions from \<open>x\<close> and to \<open>x\<close> succeed with
  \<^verbatim>\<open>NaN\<close> as rate and as result, instead of failing with a validation error.
\<close>

theorem convert_missing_rate_gives_NaN:
  assumes "updateCache up now ''USD'' (currencyCache st) = (calls, None, snapshot)"
    and "currencies snapshot = Some cur" and "rates snapshot = Some rs"
    and "x \<in> dom cur" and "x \<notin> dom rs" and "x \<noteq> ''USD''"
    and "y \<in> dom cur" and "\<not> isNaN (parseFloat a)"
  shows "\<exists>c1 c2. fst (convert up now x y a st) = Success c1 \<and> conv_rate c1 = NaN \<and>
     conv_result c1 = NaN \<and> fst (convert up now y x a st) = Success c2 \<and> conv_rate c2 = NaN \<and>
     conv_result c2 = NaN"
proof -
  have v: "cur x \<noteq> None" "cur y \<noteq> None"
    using assms(4,7) by auto
  have r: "rate_of rs x = NaN"
    using assms(5) by (simp add: rate_of_def domIff)
  show ?thesis
    using convert_valid [OF assms(8) assms(1) assms(2) assms(3) v]
      convert_valid [OF assms(8) assms(1) assms(2) assms(3) v(2) v(1)] assms(6)
    by (simp add: r num_div_NaN_right num_mul_NaN_right)
qed

theorem convert_missing_rate_gives_NaN_witness:
  "updateCache sample_upstream 1000 ''USD'' (currencyCache initial_state) =
     ([GetCurrencies, GetLatest ''USD''], None, sample_cache)
   \<and> currencies sample_cache = Some sample_currencies \<and> rates sample_cache = Some usd_rates
   \<and> ''XAU'' \<in> dom sample_currencies \<and> ''XAU'' \<notin> dom usd_rates \<and> ''XAU'' \<noteq> ''USD''
   \<and> ''EUR'' \<in> dom sample_currencies \<and> \<not> isNaN (parseFloat ''10'')
   \<and> fst (convert sample_upstream 1000 ''XAU'' ''EUR'' ''10'' initial_state) =
       Success \<lparr>conv_from = ''XAU'', conv_to = ''EUR'',
         conv_amount = Finite False 5629499534213120 (- 49), conv_rate = NaN, conv_result = NaN\<rparr>
   \<and> fst (convert sample_upstream 1000 ''EUR'' ''XAU'' ''10'' initial_state) =
       Success \<lparr>conv_from = ''EUR'', conv_to = ''XAU'',
         conv_amount = Finite False 5629499534213120 (- 49), conv_rate = NaN, conv_result = NaN\<rparr>"
proof -
  have d: "''XAU'' \<in> dom sample_currencies" "''XAU'' \<notin> dom usd_rates" "''XAU'' \<noteq> ''USD''"
    "''EUR'' \<in> dom sample_currencies"
    using sample_tables by auto
  have nn: "\<not> isNaN (parseFloat ''10'')"
    by (simp add: isNaN_def parseFloat_10)
  obtain c1 c2 where
    1: "fst (convert sample_upstream 1000 ''XAU'' ''EUR'' ''10'' initial_state) = Success c1"
      "conv_rate c1 = NaN" "conv_result c1 = NaN"
    and 2: "fst (convert sample_upstream 1000 ''EUR'' ''XAU'' ''10'' initial_state) = Success c2"
      "conv_rate c2 = NaN" "conv_result c2 = NaN"
    using convert_missing_rate_gives_NaN [OF sample_first_refresh sample_cache_fields(1,2) d nn]
    by blast
  have v: "sample_currencies ''XAU'' \<noteq> None" "sample_currencies ''EUR'' \<noteq> None"
    by (fact sample_tables)+
  have "c1 = \<lparr>conv_from = ''XAU'', conv_to = ''EUR'',
      conv_amount = Finite False 5629499534213120 (- 49), conv_rate = NaN, conv_result = NaN\<rparr>"
    using 1 convert_valid [OF nn sample_first_refresh sample_cache_fields(1,2) v]
    by (auto simp add: parseFloat_10)
  moreover have "c2 = \<lparr>conv_from = ''EUR'', conv_to = ''XAU'',
      conv_amount = Finite False 5629499534213120 (- 49), conv_rate = NaN, conv_result = NaN\<rparr>"
    using 2 convert_valid [OF nn sample_first_refresh sample_cache_fields(1,2) v(2) v(1)]
    by (auto simp add: parseFloat_10)
  ultimately show ?thesis
    using 1 2 d nn sample_first_refresh sample_cache_fields by simp
qed

text \<open>
  Claim C5, as the code has it. Converting a valid currency \<open>x\<close> to itself succeeds. For
  \<open>x = USD\<close> the rate is exactly 1 and the result exactly the amount. For any other \<open>x\<close> the
  rate is the Number \<open>(1 / rates[x]) * rates[x]\<close>, rounded twice, and the result is the amount
  times that rate.
\<close>

theorem convert_same_currency:
  assumes "updateCache up now ''USD'' (currencyCache st) = (calls, None, snapshot)"
    and "currencies snapshot = Some cur" and "rates snapshot = Some rs"
    and "x \<in> dom cur" and "\<not> isNaN (parseFloat a)"
  shows "\<exists>conv. fst (convert up now x x a st) = Success conv \<and>
     (x = ''USD'' \<longrightarrow> conv_rate conv = num_of_int 1 \<and> conv_result conv = parseFloat a) \<and>
     (x \<noteq> ''USD'' \<longrightarrow>
        conv_rate conv = num_mul (num_div (num_of_int 1) (rate_of rs x)) (rate_of rs x) \<and>
        conv_result conv = num_mul (parseFloat a) (conv_rate conv))"
proof -
  have v: "cur x \<noteq> None"
    using assms(4) by auto
  have one: "num_mul (num_of_int 1) (num_of_int 1) = num_of_int 1"
    by (rule num_mul_one) (simp add: num_of_int_def to_double_is_double)
  have amount: "num_mul (parseFloat a) (num_of_int 1) = parseFloat a"
    by (rule num_mul_one) (rule parseFloat_is_double)
  show ?thesis
    using convert_valid [OF assms(5) assms(1) assms(2) assms(3) v v]
    by (simp add: one amount)
qed

theorem convert_same_currency_witness:
  "updateCache sample_upstream 1000 ''USD'' (currencyCache initial_state) =
     ([GetCurrencies, GetLatest ''USD''], None, sample_cache)
   \<and> currencies sample_cache = Some sample_currencies \<and> rates sample_cache = Some usd_rates
   \<and> ''USD'' \<in> dom sample_currencies \<and> ''EUR'' \<in> dom sample_currencies
   \<and> \<not> isNaN (parseFloat ''10'')
   \<and> fst (convert sample_upstream 1000 ''USD'' ''USD'' ''10'' initial_state) =
       Success \<lparr>conv_from = ''USD'', conv_to = ''USD'',
         conv_amount = Finite False 5629499534213120 (- 49),
         conv_rate = Finite False 4503599627370496 (- 52),
         conv_result = Finite False 5629499534213120 (- 49)\<rparr>
   \<and> fst (convert sample_upstream 1000 ''EUR'' ''EUR'' ''10'' initial_state) =
       Success \<lparr>conv_from = ''EUR'', conv_to = ''EUR'',
         conv_amount = Finite False 5629499534213120 (- 49),
         conv_rate = Finite False 4503599627370496 (- 52),
         conv_result = Finite False 5629499534213120 (- 49)\<rparr>"
proof -
  have d: "''USD'' \<in> dom sample_currencies" "''EUR'' \<in> dom sample_currencies"
    using sample_tables by auto
  have v: "sample_currencies ''USD'' \<noteq> None" "sample_currencies ''EUR'' \<noteq> None"
    by (fact sample_tables)+
  have nn: "\<not> isNaN (parseFloat ''10'')"
    by (simp add: isNaN_def parseFloat_10)
  obtain c1 where 1: "fst (convert sample_upstream 1000 ''USD'' ''USD'' ''10'' initial_state) = Success c1"
    and r1: "conv_rate c1 = num_of_int 1" "conv_result c1 = parseFloat ''10''"
    using convert_same_currency [OF sample_first_refresh sample_cache_fields(1,2) d(1) nn] by blast
  obtain c2 where 2: "fst (convert sample_upstream 1000 ''EUR'' ''EUR'' ''10'' initial_state) = Success c2"
    and r2: "conv_rate c2 =
        num_mul (num_div (num_of_int 1) (rate_of usd_rates ''EUR'')) (rate_of usd_rates ''EUR'')"
      "conv_result c2 = num_mul (parseFloat ''10'') (conv_rate c2)"
    using convert_same_currency [OF sample_first_refresh sample_cache_fields(1,2) d(2) nn] by auto
  have "conv_rate c2 = Finite False 4503599627370496 (- 52)"
    using r2(1) by (simp add: sample_tables number_eval)
  then have e2: "conv_rate c2 = Finite False 4503599627370496 (- 52)"
    "conv_result c2 = Finite False 5629499534213120 (- 49)"
    using r2(2) by (simp_all add: parseFloat_10 number_eval)
  have e1: "conv_rate c1 = Finite False 4503599627370496 (- 52)"
    "conv_result c1 = Finite False 5629499534213120 (- 49)"
    using r1 by (simp_all add: parseFloat_10 num_of_int_1)
  have "c1 = \<lparr>conv_from = ''USD'', conv_to = ''USD'',
         conv_amount = Finite False 5629499534213120 (- 49),
         conv_rate = Finite False 4503599627370496 (- 52),
         conv_result = Finite False 5629499534213120 (- 49)\<rparr>"
    using 1 e1 convert_valid [OF nn sample_first_refresh sample_cache_fields(1,2) v(1) v(1)]
    by (auto simp add: parseFloat_10)
  moreover have "c2 = \<lparr>conv_from = ''EUR'', conv_to = ''EUR'',
         conv_amount = Finite False 5629499534213120 (- 49),
         conv_rate = Finite False 4503599627370496 (- 52),
         conv_result = Finite False 5629499534213120 (- 49)\<rparr>"
    using 2 e2 convert_valid [OF nn sample_first_refresh sample_cache_fields(1,2) v(2) v(2)]
    by (auto simp add: parseFloat_10)
  ultimately show ?thesis
    using 1 2 d nn sample_first_refresh sample_cache_fields by simp
qed

text \<open>
  With a rate of 49 baht per dollar, \<open>1 / 49\<close> rounds to a Number whose product with 49
  rounds to \<open>1 - 2\<^sup>-\<^sup>5\<^sup>3\<close> (0.9999999999999999): the conversion of 10 baht to baht has a rate
  other than 1 and the result 9.999999999999998.
\<close>

theorem convert_same_currency_counterexample:
  "''THB'' \<in> dom sample_currencies
   \<and> fst (convert sample_upstream 1000 ''THB'' ''THB'' ''10'' initial_state) =
       Success \<lparr>conv_from = ''THB'', conv_to = ''THB'',
         conv_amount = Finite False 5629499534213120 (- 49),
         conv_rate = Finite False 9007199254740991 (- 53),
         conv_result = Finite False 5629499534213119 (- 49)\<rparr>
   \<and> Finite False 9007199254740991 (- 53) \<noteq> num_of_int 1
   \<and> Finite False 5629499534213119 (- 49) \<noteq> parseFloat ''10''"
proof -
  have v: "sample_currencies ''THB'' \<noteq> None"
    by (fact sample_tables)
  have nn: "\<not> isNaN (parseFloat ''10'')"
    by (simp add: isNaN_def parseFloat_10)
  have q: "num_div (num_of_int 1) (Finite False 6896136929411072 (- 47)) =
      Finite False 5882252574524729 (- 58)"
    by (simp add: number_eval)
  have r: "num_mul (Finite False 5882252574524729 (- 58)) (Finite False 6896136929411072 (- 47)) =
      Finite False 9007199254740991 (- 53)"
    by (simp add: number_eval)
  have p: "num_mul (Finite False 5629499534213120 (- 49)) (Finite False 9007199254740991 (- 53)) =
      Finite False 5629499534213119 (- 49)"
    by (simp add: number_eval)
  have "fst (convert sample_upstream 1000 ''THB'' ''THB'' ''10'' initial_state) =
       Success \<lparr>conv_from = ''THB'', conv_to = ''THB'',
         conv_amount = Finite False 5629499534213120 (- 49),
         conv_rate = Finite False 9007199254740991 (- 53),
         conv_result = Finite False 5629499534213119 (- 49)\<rparr>"
    using convert_valid [OF nn sample_first_refresh sample_cache_fields(1,2) v v]
    by (simp add: sample_tables parseFloat_10 q r p del: num_mul.simps num_div.simps)
  then show ?thesis
    using v by (simp add: parseFloat_10 num_of_int_1 domIff)
qed

text \<open>
  A code that is the name of an inherited property passes the test of the currency
  list, whatever the list holds. Without a rate of its own it is converted like a
  currency whose rate is missing: the route answers 200 with rate and result \<^verbatim>\<open>NaN\<close>.
\<close>

lemma convert_inherited_code:
  assumes "\<not> isNaN (parseFloat a)"
    and "updateCache up now ''USD'' (currencyCache st) = (calls, None, c)"
    and "currencies c = Some cur" and "rates c = Some rs"
    and "inherited x" and "rs x = None" and "truthy_at cur y"
  shows "convert up now x y a st =
       (Success \<lparr>conv_from = x, conv_to = y, conv_amount = parseFloat a,
          conv_rate = NaN, conv_result = NaN\<rparr>, calls, st\<lparr>currencyCache := c\<rparr>)"
    and "convert up now y x a st =
       (Success \<lparr>conv_from = y, conv_to = x, conv_amount = parseFloat a,
          conv_rate = NaN, conv_result = NaN\<rparr>, calls, st\<lparr>currencyCache := c\<rparr>)"
proof -
  have x: "truthy_at cur x" "x \<noteq> ''USD''" "rate_of rs x = NaN"
    using assms(5,6) inherited_names(7) by (auto simp add: truthy_at_def rate_of_def)
  show "convert up now x y a st =
       (Success \<lparr>conv_from = x, conv_to = y, conv_amount = parseFloat a,
          conv_rate = NaN, conv_result = NaN\<rparr>, calls, st\<lparr>currencyCache := c\<rparr>)"
    using convert_truthy [OF assms(1-4) x(1) assms(7)] x(2,3)
    by (simp add: num_div_NaN_right num_mul_NaN_right del: num_div.simps)
  show "convert up now y x a st =
       (Success \<lparr>conv_from = y, conv_to = x, conv_amount = parseFloat a,
          conv_rate = NaN, conv_result = NaN\<rparr>, calls, st\<lparr>currencyCache := c\<rparr>)"
    using convert_truthy [OF assms(1-4) assms(7) x(1)] x(2,3)
    by (simp add: num_mul_NaN_right del: num_mul.simps num_div.simps)
qed

lemma convert_constructor:
  "fst (convert sample_upstream 1000 ''constructor'' ''EUR'' ''10'' initial_state) =
     Success \<lparr>conv_from = ''constructor'', conv_to = ''EUR'',
       conv_amount = Finite False 5629499534213120 (- 49), conv_rate = NaN, conv_result = NaN\<rparr>"
proof -
  have "\<not> isNaN (parseFloat ''10'')"
    by (simp add: isNaN_def parseFloat_10)
  moreover have "usd_rates ''constructor'' = None"
    by (simp add: usd_rates_def)
  moreover have "truthy_at sample_currencies ''EUR''"
    by (simp add: truthy_at_own sample_tables)
  ultimately show ?thesis
    using convert_inherited_code(1) [OF _ sample_first_refresh sample_cache_fields(1,2)
        inherited_names(1)]
    by (simp add: parseFloat_10)
qed

text \<open>
  Claim C6, as the code has it, for codes \<open>f\<close> and \<open>t\<close> that are not names of inherited
  properties. A single conversion fails with a validation error if and only if
  \<^verbatim>\<open>parseFloat\<close> of the amount is \<^verbatim>\<open>NaN\<close>, or the refresh succeeds and \<open>f\<close> or \<open>t\<close> is not a key
  of the currency list of the refreshed cache. The first error is raised before the
  refresh: no request is sent and the state is unchanged. The second is raised after it:
  the cache is the refreshed one. The history is never changed.
\<close>

theorem convert_validation:
  assumes "\<not> inherited f" and "\<not> inherited t"
  shows "((\<exists>msg. fst (convert up now f t a st) = Failure 400 (ValidationError msg)) \<longleftrightarrow>
      isNaN (parseFloat a) \<or>
      (\<exists>calls c cur. updateCache up now ''USD'' (currencyCache st) = (calls, None, c) \<and>
         currencies c = Some cur \<and> (f \<notin> dom cur \<or> t \<notin> dom cur)))
   \<and> (isNaN (parseFloat a) \<longrightarrow>
        convert up now f t a st = (Failure 400 (ValidationError ''Amount must be a number''), [], st))
   \<and> (\<forall>calls c cur. \<not> isNaN (parseFloat a) \<and>
          updateCache up now ''USD'' (currencyCache st) = (calls, None, c) \<and>
          currencies c = Some cur \<and> (f \<notin> dom cur \<or> t \<notin> dom cur) \<longrightarrow>
        convert up now f t a st =
          (Failure 400 (ValidationError ''Invalid currency code''), calls, st\<lparr>currencyCache := c\<rparr>))
   \<and> conversionHistoryStore (snd (snd (convert up now f t a st))) = conversionHistoryStore st"
proof -
  have own: "truthy_at cur f \<longleftrightarrow> f \<in> dom cur" "truthy_at cur t \<longleftrightarrow> t \<in> dom cur"
    for cur :: currency_table
    using assms by (simp_all add: truthy_at_dom)
  have 2: "isNaN (parseFloat a) \<longrightarrow>
      convert up now f t a st = (Failure 400 (ValidationError ''Amount must be a number''), [], st)"
    by (simp add: convert_not_a_number)
  have 3: "\<forall>calls c cur. \<not> isNaN (parseFloat a) \<and>
        updateCache up now ''USD'' (currencyCache st) = (calls, None, c) \<and>
        currencies c = Some cur \<and> (f \<notin> dom cur \<or> t \<notin> dom cur) \<longrightarrow>
      convert up now f t a st =
        (Failure 400 (ValidationError ''Invalid currency code''), calls, st\<lparr>currencyCache := c\<rparr>)"
    using convert_invalid_code [of a up now st _ _ _ f t] by (simp add: own)
  have 1: "(\<exists>msg. fst (convert up now f t a st) = Failure 400 (ValidationError msg)) \<longleftrightarrow>
      isNaN (parseFloat a) \<or>
      (\<exists>calls c cur. updateCache up now ''USD'' (currencyCache st) = (calls, None, c) \<and>
         currencies c = Some cur \<and> (f \<notin> dom cur \<or> t \<notin> dom cur))"
  proof (cases "isNaN (parseFloat a)")
    case True
    then show ?thesis by (simp add: convert_not_a_number)
  next
    case nn: False
    obtain calls eo c where u: "updateCache up now ''USD'' (currencyCache st) = (calls, eo, c)"
      by (cases "updateCache up now ''USD'' (currencyCache st)") auto
    show ?thesis
    proof (cases eo)
      case (Some e)
      then obtain msg where "e = UpstreamFetchError msg"
        using updateCache_error_unchanged u by blast
      then show ?thesis
        using nn u Some by (simp add: convert_def)
    next
      case None
      show ?thesis
      proof (cases "currencies c")
        case n: None
        then show ?thesis
          using nn u None by (simp add: convert_def Let_def)
      next
        case (Some cur)
        show ?thesis
        proof (cases "f \<notin> dom cur \<or> t \<notin> dom cur")
          case True
          then show ?thesis
            using 3 nn u None Some by auto
        next
          case False
          then show ?thesis
            using nn u None Some
            by (auto simp add: convert_def Let_def usdRates_at_def own split: option.splits)
        qed
      qed
    qed
  qed
  show ?thesis
    by (intro conjI) (fact 1, fact 2, fact 3, rule convert_history)
qed

theorem convert_validation_witness:
  "isNaN (parseFloat ''abc'')
   \<and> convert sample_upstream 1000 ''USD'' ''EUR'' ''abc'' initial_state =
       (Failure 400 (ValidationError ''Amount must be a number''), [], initial_state)
   \<and> \<not> isNaN (parseFloat ''10'')
   \<and> updateCache sample_upstream 2000 ''USD'' (currencyCache sample_state) = ([], None, sample_cache)
   \<and> currencies sample_cache = Some sample_currencies \<and> ''ZZZ'' \<notin> dom sample_currencies
   \<and> \<not> inherited ''USD'' \<and> \<not> inherited ''EUR'' \<and> \<not> inherited ''ZZZ''
   \<and> convert sample_upstream 2000 ''ZZZ'' ''EUR'' ''10'' sample_state =
       (Failure 400 (ValidationError ''Invalid currency code''), [], sample_state)"
proof -
  note i = inherited_names(7,8,11)
  have na: "isNaN (parseFloat ''abc'')"
    by (simp add: isNaN_def parseFloat_abc)
  have nn: "\<not> isNaN (parseFloat ''10'')"
    by (simp add: isNaN_def parseFloat_10)
  have u: "updateCache sample_upstream 2000 ''USD'' (currencyCache sample_state) = ([], None, sample_cache)"
    by (simp add: updateCache_def sample_state_def sample_needs sample_cache_fields)
  have z: "''ZZZ'' \<notin> dom sample_currencies"
    using sample_tables by (simp add: domIff)
  have s: "sample_state\<lparr>currencyCache := sample_cache\<rparr> = sample_state"
    by (simp add: sample_state_def)
  have "convert sample_upstream 1000 ''USD'' ''EUR'' ''abc'' initial_state =
       (Failure 400 (ValidationError ''Amount must be a number''), [], initial_state)"
    using convert_validation [OF i(1,2), of sample_upstream 1000 "''abc''" initial_state] na
    by blast
  moreover have "convert sample_upstream 2000 ''ZZZ'' ''EUR'' ''10'' sample_state =
       (Failure 400 (ValidationError ''Invalid currency code''), [],
        sample_state\<lparr>currencyCache := sample_cache\<rparr>)"
    using convert_validation [OF i(3,2), of sample_upstream 2000 "''10''" sample_state]
      nn u z sample_cache_fields(1)
    by blast
  ultimately show ?thesis
    using na nn u z i sample_cache_fields(1) by (simp add: s)
qed

text \<open>
  The amount \<^verbatim>\<open>Infinity\<close> parses to a Number that is not finite and is accepted; an
  invalid code is reported after the refresh has replaced the cache; and when the refresh
  fails, an invalid code is not reported at all: the error is that of the fetch.
\<close>

theorem convert_validation_counterexample:
  "parseFloat ''Infinity'' = Infinity False
   \<and> fst (convert sample_upstream 1000 ''USD'' ''EUR'' ''Infinity'' initial_state) =
       Success \<lparr>conv_from = ''USD'', conv_to = ''EUR'', conv_amount = Infinity False,
         conv_rate = Finite False 4503599627370496 (- 53), conv_result = Infinity False\<rparr>
   \<and> convert sample_upstream 1000 ''ZZZ'' ''EUR'' ''10'' initial_state =
       (Failure 400 (ValidationError ''Invalid currency code''),
        [GetCurrencies, GetLatest ''USD''], initial_state\<lparr>currencyCache := sample_cache\<rparr>)
   \<and> currencyCache (initial_state\<lparr>currencyCache := sample_cache\<rparr>) \<noteq> currencyCache initial_state
   \<and> fst (convert failing_upstream 1000 ''ZZZ'' ''EUR'' ''10'' initial_state) =
       Failure 400 (UpstreamFetchError ''Failed to fetch currency list'')"
proof -
  have ni: "\<not> isNaN (parseFloat ''Infinity'')"
    by (simp add: isNaN_def parseFloat_Infinity)
  have nn: "\<not> isNaN (parseFloat ''10'')"
    by (simp add: isNaN_def parseFloat_10)
  have v: "sample_currencies ''USD'' \<noteq> None" "sample_currencies ''EUR'' \<noteq> None"
    by (fact sample_tables)+
  have z: "\<not> truthy_at sample_currencies ''ZZZ'' \<or> \<not> truthy_at sample_currencies ''EUR''"
    by (simp add: truthy_at_def inherited_names sample_tables)
  have m: "num_mul (num_of_int 1) (Finite False 4503599627370496 (- 53)) =
      Finite False 4503599627370496 (- 53)"
    by (simp add: number_eval)
  have 1: "fst (convert sample_upstream 1000 ''USD'' ''EUR'' ''Infinity'' initial_state) =
       Success \<lparr>conv_from = ''USD'', conv_to = ''EUR'', conv_amount = Infinity False,
         conv_rate = Finite False 4503599627370496 (- 53), conv_result = Infinity False\<rparr>"
    using convert_valid [OF ni sample_first_refresh sample_cache_fields(1,2) v]
    by (simp add: parseFloat_Infinity sample_tables m)
  have 2: "convert sample_upstream 1000 ''ZZZ'' ''EUR'' ''10'' initial_state =
       (Failure 400 (ValidationError ''Invalid currency code''),
        [GetCurrencies, GetLatest ''USD''], initial_state\<lparr>currencyCache := sample_cache\<rparr>)"
    by (rule convert_invalid_code [OF nn sample_first_refresh sample_cache_fields(1) z])
  have 3: "currencyCache (initial_state\<lparr>currencyCache := sample_cache\<rparr>) \<noteq> currencyCache initial_state"
    by (simp add: initial_state_def initial_cache_def sample_cache_def)
  have "updateCache failing_upstream 1000 ''USD'' (currencyCache initial_state) =
      ([GetCurrencies, GetLatest ''USD''],
       Some (UpstreamFetchError ''Failed to fetch currency list''), initial_cache)"
    by (simp add: updateCache_def initial_state_def sample_needs sample_fetches)
  then have 4: "fst (convert failing_upstream 1000 ''ZZZ'' ''EUR'' ''10'' initial_state) =
       Failure 400 (UpstreamFetchError ''Failed to fetch currency list'')"
    using nn by (simp add: convert_def)
  show ?thesis
    using 1 2 3 4 by (simp add: parseFloat_Infinity)
qed

subsection \<open>Bulk conversion\<close>

lemma map_of_set_own: "map_of (set_own k v kvs) = (map_of kvs)(k \<mapsto> v)"
  by (induction kvs) (auto simp: fun_eq_iff)

lemma keys_set_own:
  "map fst (set_own k v kvs) = (if k \<in> fst ` set kvs then map fst kvs else map fst kvs @ [k])"
  by (induction kvs) force+

lemma map_of_assign:
  "k \<noteq> ''__proto__'' \<Longrightarrow> map_of (assign k v kvs) = (map_of kvs)(k \<mapsto> v)"
  by (simp add: assign_def map_of_set_own)

lemma map_of_assign_other: "k \<noteq> k' \<Longrightarrow> map_of (assign k' v kvs) k = map_of kvs k"
  by (simp add: assign_def map_of_set_own)

lemma keys_assign:
  "map fst (assign k v kvs) =
     (if k = ''__proto__'' \<or> k \<in> fst ` set kvs then map fst kvs else map fst kvs @ [k])"
  by (simp add: assign_def keys_set_own)

lemma bulk_loop_fold:
  "bulk_loop cur (Some rs) fromToUsd entries results =
     Inr (foldl (\<lambda>acc (k, v). assign k (bulk_entry_of cur rs fromToUsd k v) acc) results entries)"
  by (induction entries arbitrary: results)
    (auto simp: bulk_entry_of_def usdRates_at_def Let_def)

lemma fold_assign_other:
  "k \<notin> fst ` set entries \<Longrightarrow>
   map_of (foldl (\<lambda>acc (k, v). assign k (g k v) acc) results entries) k = map_of results k"
  by (induction entries arbitrary: results) (auto simp: map_of_assign_other)

lemma fold_assign_proto:
  "map_of (foldl (\<lambda>acc (k, v). assign k (g k v) acc) results entries) ''__proto__'' =
     map_of results ''__proto__''"
proof (induction entries arbitrary: results)
  case Nil
  then show ?case by simp
next
  case (Cons e entries)
  obtain k v where e: "e = (k, v)" by (cases e)
  have "map_of (assign k (g k v) results) ''__proto__'' = map_of results ''__proto__''"
    by (cases "k = ''__proto__''") (simp_all add: assign_def map_of_set_own)
  then show ?case
    by (simp add: e Cons.IH)
qed

lemma fold_assign_entry:
  "distinct (map fst entries) \<Longrightarrow> (k, v) \<in> set entries \<Longrightarrow> k \<noteq> ''__proto__'' \<Longrightarrow>
   map_of (foldl (\<lambda>acc (k, v). assign k (g k v) acc) results entries) k = Some (g k v)"
proof (induction entries arbitrary: results)
  case Nil
  then show ?case by simp
next
  case (Cons e entries)
  obtain k' v' where e: "e = (k', v')" by (cases e)
  show ?case
  proof (cases "(k, v) = (k', v')")
    case True
    then have "k \<notin> fst ` set entries"
      using Cons.prems(1) by (simp add: e)
    then show ?thesis
      using True Cons.prems(3) by (simp add: e fold_assign_other map_of_assign)
  next
    case False
    then have "(k, v) \<in> set entries"
      using Cons.prems(2) by (auto simp: e)
    moreover have "distinct (map fst entries)"
      using Cons.prems(1) by simp
    ultimately show ?thesis
      using Cons.prems(3) by (simp add: e Cons.IH)
  qed
qed

lemma fold_assign_keys:
  "distinct (map fst entries) \<Longrightarrow> fst ` set entries \<inter> fst ` set results = {} \<Longrightarrow>
   map fst (foldl (\<lambda>acc (k, v). assign k (g k v) acc) results entries) =
     map fst results @ filter (\<lambda>k. k \<noteq> ''__proto__'') (map fst entries)"
proof (induction entries arbitrary: results)
  case Nil
  then show ?case by simp
next
  case (Cons e entries)
  obtain k v where e: "e = (k, v)" by (cases e)
  have fresh: "k \<notin> fst ` set results"
    using Cons.prems(2) by (auto simp: e)
  then have keys: "map fst (assign k (g k v) results) =
      map fst results @ filter (\<lambda>k. k \<noteq> ''__proto__'') [k]"
    by (simp add: keys_assign)
  have dis: "fst ` set entries \<inter> fst ` set (assign k (g k v) results) = {}"
  proof -
    have "fst ` set (assign k (g k v) results) \<subseteq> insert k (fst ` set results)"
      by (simp only: set_map [symmetric] keys) auto
    moreover have "k \<notin> fst ` set entries"
      using Cons.prems(1) by (simp add: e)
    moreover have "fst ` set entries \<inter> fst ` set results = {}"
      using Cons.prems(2) by (auto simp: e)
    ultimately show ?thesis
      by blast
  qed
  have "distinct (map fst entries)"
    using Cons.prems(1) by simp
  then have "map fst (foldl (\<lambda>acc (k, v). assign k (g k v) acc)
        (assign k (g k v) results) entries) =
      map fst (assign k (g k v) results) @ filter (\<lambda>k. k \<noteq> ''__proto__'') (map fst entries)"
    using dis by (rule Cons.IH)
  then show ?case
    by (simp add: e keys)
qed

lemma convert_bulk_truthy:
  assumes "updateCache up now ''USD'' (currencyCache st) = (calls, None, c)"
    and "currencies c = Some cur" and "rates c = Some rs"
    and "bulk_from body = Some f" and "f \<noteq> []" and "bulk_amounts body = Some entries"
    and "truthy_at cur f"
  shows "convert_bulk up now body st =
     (Success (f, foldl (\<lambda>acc (k, v). assign k
         (bulk_entry_of cur rs
            (if f = ''USD'' then num_of_int 1 else num_div (num_of_int 1) (rate_of rs f)) k v) acc)
         [] entries),
      calls, st\<lparr>currencyCache := c\<rparr>)"
  using assms by (simp add: convert_bulk_def Let_def usdRates_at_def bulk_loop_fold)

lemma convert_bulk_valid:
  assumes "updateCache up now ''USD'' (currencyCache st) = (calls, None, c)"
    and "currencies c = Some cur" and "rates c = Some rs"
    and "bulk_from body = Some f" and "f \<noteq> []" and "bulk_amounts body = Some entries"
    and "cur f \<noteq> None"
  shows "convert_bulk up now body st =
     (Success (f, foldl (\<lambda>acc (k, v). assign k
         (bulk_entry_of cur rs
            (if f = ''USD'' then num_of_int 1 else num_div (num_of_int 1) (rate_of rs f)) k v) acc)
         [] entries),
      calls, st\<lparr>currencyCache := c\<rparr>)"
  using assms(7) by (intro convert_bulk_truthy [OF assms(1-6)] truthy_at_own)

lemma convert_bulk_invalid_source:
  assumes "updateCache up now ''USD'' (currencyCache st) = (calls, None, c)"
    and "currencies c = Some cur"
    and "bulk_from body = Some f" and "f \<noteq> []" and "bulk_amounts body = Some entries"
    and "\<not> truthy_at cur f"
  shows "convert_bulk up now body st =
     (Failure 400 (ValidationError (''Invalid source currency: '' @ f)), calls,
      st\<lparr>currencyCache := c\<rparr>)"
  using assms by (simp add: convert_bulk_def Let_def)

lemma convert_bulk_bad_format:
  "bulk_from body = None \<or> bulk_from body = Some [] \<or> bulk_amounts body = None \<Longrightarrow>
   convert_bulk up now body st =
     (Failure 400 (ValidationError
        ''Invalid request format. Expected { from: \"CUR\", amounts: { \"CUR\": amount } }''), [], st)"
  by (auto simp add: convert_bulk_def split: option.splits)

text \<open>
  The reply of a bulk conversion whose source passes the test of the currency list: the
  keys of \<^verbatim>\<open>amounts\<close> other than \<^verbatim>\<open>__proto__\<close>, in the order of the request, each with the
  entry that the loop computes for it.
\<close>

lemma convert_bulk_results:
  assumes "updateCache up now ''USD'' (currencyCache st) = (calls, None, snapshot)"
    and "currencies snapshot = Some cur" and "rates snapshot = Some rs"
    and "bulk_from body = Some f" and "f \<noteq> []" and "bulk_amounts body = Some entries"
    and "distinct (map fst entries)" and "truthy_at cur f"
  shows "\<exists>results. fst (convert_bulk up now body st) = Success (f, results) \<and>
     map fst results = filter (\<lambda>k. k \<noteq> ''__proto__'') (map fst entries) \<and>
     (\<forall>(k, v) \<in> set entries. k \<noteq> ''__proto__'' \<longrightarrow>
        map_of results k =
          Some (bulk_entry_of cur rs
            (if f = ''USD'' then num_of_int 1 else num_div (num_of_int 1) (rate_of rs f)) k v))"
proof -
  define ftu where "ftu = (if f = ''USD'' then num_of_int 1 else num_div (num_of_int 1) (rate_of rs f))"
  define results where
    "results = foldl (\<lambda>acc (k, v). assign k (bulk_entry_of cur rs ftu k v) acc) [] entries"
  have r: "fst (convert_bulk up now body st) = Success (f, results)"
    using convert_bulk_truthy [OF assms(1-6) assms(8)] by (simp add: results_def ftu_def)
  have keys: "map fst results = filter (\<lambda>k. k \<noteq> ''__proto__'') (map fst entries)"
    unfolding results_def using fold_assign_keys [OF assms(7), of "[]"] by simp
  have "map_of results k = Some (bulk_entry_of cur rs ftu k v)"
    if "(k, v) \<in> set entries" "k \<noteq> ''__proto__''" for k v
    unfolding results_def using assms(7) that by (rule fold_assign_entry)
  then have "\<forall>(k, v) \<in> set entries. k \<noteq> ''__proto__'' \<longrightarrow>
      map_of results k = Some (bulk_entry_of cur rs ftu k v)"
    by auto
  then show ?thesis
    using r keys unfolding ftu_def by blast
qed

text \<open>
  Bulk conversion on names that are not inherited. When the source \<open>f\<close> is a key of the
  currency list, every key of \<^verbatim>\<open>amounts\<close> gets an entry, in the order of the request: an
  error entry when the key is not in the currency list, an error entry when its amount
  does not parse, and otherwise the amount, the rate and their product; the request
  succeeds. When \<open>f\<close> is not a key of the currency list the request fails with a validation
  error and there are no results.
\<close>

lemma bulk_own_names:
  assumes "updateCache up now ''USD'' (currencyCache st) = (calls, None, snapshot)"
    and "currencies snapshot = Some cur" and "rates snapshot = Some rs"
    and "bulk_from body = Some f" and "bulk_amounts body = Some entries"
    and "distinct (map fst entries)"
    and "\<not> inherited f" and "\<forall>k \<in> fst ` set entries. \<not> inherited k"
  shows "(f \<in> dom cur \<and> f \<noteq> [] \<longrightarrow>
          (\<exists>results. fst (convert_bulk up now body st) = Success (f, results) \<and>
             map fst results = map fst entries \<and>
             (\<forall>(k, v) \<in> set entries.
                (k \<notin> dom cur \<longrightarrow> map_of results k = Some (ErrorEntry ''Invalid currency code'')) \<and>
                (k \<in> dom cur \<and> isNaN (parseFloat_json v) \<longrightarrow>
                   map_of results k = Some (ErrorEntry ''Amount must be a number'')) \<and>
                (k \<in> dom cur \<and> \<not> isNaN (parseFloat_json v) \<longrightarrow>
                   (\<exists>r. map_of results k =
                      Some (ResultEntry (parseFloat_json v) r (num_mul (parseFloat_json v) r)) \<and>
                    r = num_mul
                          (if f = ''USD'' then num_of_int 1 else num_div (num_of_int 1) (rate_of rs f))
                          (if k = ''USD'' then num_of_int 1 else rate_of rs k))))))
       \<and> (f \<notin> dom cur \<longrightarrow>
            (\<exists>msg. fst (convert_bulk up now body st) = Failure 400 (ValidationError msg)))"
proof (intro conjI impI)
  assume v: "f \<in> dom cur \<and> f \<noteq> []"
  define ftu where "ftu = (if f = ''USD'' then num_of_int 1 else num_div (num_of_int 1) (rate_of rs f))"
  have own: "\<not> inherited k" "k \<noteq> ''__proto__''" if "(k, v) \<in> set entries" for k v
  proof -
    have "k \<in> fst ` set entries"
      using that by force
    then show "\<not> inherited k"
      using assms(8) by blast
    then show "k \<noteq> ''__proto__''"
      using inherited_names(2) by auto
  qed
  have "truthy_at cur f"
    using v by (simp add: truthy_at_def domIff)
  from convert_bulk_results [OF assms(1-4) _ assms(5,6) this]
  obtain results where r: "fst (convert_bulk up now body st) = Success (f, results)"
    and keys: "map fst results = filter (\<lambda>k. k \<noteq> ''__proto__'') (map fst entries)"
    and entry: "\<forall>(k, v) \<in> set entries. k \<noteq> ''__proto__'' \<longrightarrow>
        map_of results k = Some (bulk_entry_of cur rs ftu k v)"
    using v unfolding ftu_def by blast
  have "filter (\<lambda>k. k \<noteq> ''__proto__'') (map fst entries) = map fst entries"
    using own(2) by (auto simp add: filter_id_conv)
  then have keys': "map fst results = map fst entries"
    using keys by simp
  have each: "map_of results k = Some (bulk_entry_of cur rs ftu k v)" if "(k, v) \<in> set entries" for k v
    using entry own(2) that by blast
  have "(k \<notin> dom cur \<longrightarrow> map_of results k = Some (ErrorEntry ''Invalid currency code'')) \<and>
      (k \<in> dom cur \<and> isNaN (parseFloat_json v) \<longrightarrow>
         map_of results k = Some (ErrorEntry ''Amount must be a number'')) \<and>
      (k \<in> dom cur \<and> \<not> isNaN (parseFloat_json v) \<longrightarrow>
         (\<exists>r. map_of results k =
            Some (ResultEntry (parseFloat_json v) r (num_mul (parseFloat_json v) r)) \<and>
          r = num_mul ftu (if k = ''USD'' then num_of_int 1 else rate_of rs k)))"
    if "(k, v) \<in> set entries" for k v
    using each [OF that] own(1) [OF that] by (simp add: bulk_entry_of_def truthy_at_dom)
  then have "\<forall>(k, v) \<in> set entries.
      (k \<notin> dom cur \<longrightarrow> map_of results k = Some (ErrorEntry ''Invalid currency code'')) \<and>
      (k \<in> dom cur \<and> isNaN (parseFloat_json v) \<longrightarrow>
         map_of results k = Some (ErrorEntry ''Amount must be a number'')) \<and>
      (k \<in> dom cur \<and> \<not> isNaN (parseFloat_json v) \<longrightarrow>
         (\<exists>r. map_of results k =
            Some (ResultEntry (parseFloat_json v) r (num_mul (parseFloat_json v) r)) \<and>
          r = num_mul ftu (if k = ''USD'' then num_of_int 1 else rate_of rs k)))"
    by blast
  then show "\<exists>results. fst (convert_bulk up now body st) = Success (f, results) \<and>
      map fst results = map fst entries \<and>
      (\<forall>(k, v) \<in> set entries.
         (k \<notin> dom cur \<longrightarrow> map_of results k = Some (ErrorEntry ''Invalid currency code'')) \<and>
         (k \<in> dom cur \<and> isNaN (parseFloat_json v) \<longrightarrow>
            map_of results k = Some (ErrorEntry ''Amount must be a number'')) \<and>
         (k \<in> dom cur \<and> \<not> isNaN (parseFloat_json v) \<longrightarrow>
            (\<exists>r. map_of results k =
               Some (ResultEntry (parseFloat_json v) r (num_mul (parseFloat_json v) r)) \<and>
             r = num_mul
                   (if f = ''USD'' then num_of_int 1 else num_div (num_of_int 1) (rate_of rs f))
                   (if k = ''USD'' then num_of_int 1 else rate_of rs k))))"
    using r keys' unfolding ftu_def by blast
next
  assume inv: "f \<notin> dom cur"
  show "\<exists>msg. fst (convert_bulk up now body st) = Failure 400 (ValidationError msg)"
  proof (cases "f = []")
    case True
    then show ?thesis
      using assms(4) by (simp add: convert_bulk_bad_format)
  next
    case False
    have "\<not> truthy_at cur f"
      using inv assms(7) by (simp add: truthy_at_dom)
    then show ?thesis
      using convert_bulk_invalid_source [OF assms(1,2,4) False assms(5)] by simp
  qed
qed

text \<open>
  The request \<^verbatim>\<open>{ from: "USD", amounts: { EUR: 10, ZZZ: 5, THB: "abc" } }\<close>: a result for
  \<^verbatim>\<open>EUR\<close>, an error entry for the unknown code and one for the amount that does not parse;
  with the source \<^verbatim>\<open>ZZZ\<close> the request fails.
\<close>

lemma bulk_sample_results:
  "fst (convert_bulk sample_upstream 2000 sample_bulk sample_state) =
       Success (''USD'',
         [(''EUR'', ResultEntry (Finite False 5629499534213120 (- 49))
                      (Finite False 4503599627370496 (- 53))
                      (Finite False 5629499534213120 (- 50))),
          (''ZZZ'', ErrorEntry ''Invalid currency code''),
          (''THB'', ErrorEntry ''Amount must be a number'')])
   \<and> fst (convert_bulk sample_upstream 2000 (sample_bulk\<lparr>bulk_from := Some ''ZZZ''\<rparr>) sample_state) =
       Failure 400 (ValidationError ''Invalid source currency: ZZZ'')"
proof -
  let ?entries = "[(''EUR'', JNumber (Finite False 5629499534213120 (- 49))),
                   (''ZZZ'', JNumber (Finite False 5629499534213120 (- 50))),
                   (''THB'', JString ''abc'')]"
  have u: "updateCache sample_upstream 2000 ''USD'' (currencyCache sample_state) = ([], None, sample_cache)"
    by (simp add: updateCache_def sample_state_def sample_needs sample_cache_fields)
  have b: "bulk_from sample_bulk = Some ''USD''" "bulk_amounts sample_bulk = Some ?entries"
    by (simp_all add: sample_bulk_def)
  have b': "bulk_from (sample_bulk\<lparr>bulk_from := Some ''ZZZ''\<rparr>) = Some ''ZZZ''"
    "bulk_amounts (sample_bulk\<lparr>bulk_from := Some ''ZZZ''\<rparr>) = Some ?entries"
    by (simp_all add: sample_bulk_def)
  have t: "truthy_at sample_currencies ''EUR''" "\<not> truthy_at sample_currencies ''ZZZ''"
    "truthy_at sample_currencies ''THB''"
    by (simp_all add: truthy_at_def inherited_names sample_tables)
  have pf: "parseFloat_json (JNumber (Finite False 5629499534213120 (- 49))) =
      Finite False 5629499534213120 (- 49)"
    "isNaN (parseFloat_json (JString ''abc''))"
    "\<not> isNaN (Finite False 5629499534213120 (- 49))"
    by (simp_all add: parseFloat_json_def parseFloat_abc isNaN_def)
  have m: "num_mul (num_of_int 1) (Finite False 4503599627370496 (- 53)) =
      Finite False 4503599627370496 (- 53)"
    "num_mul (Finite False 5629499534213120 (- 49)) (Finite False 4503599627370496 (- 53)) =
      Finite False 5629499534213120 (- 50)"
    by (simp_all add: number_eval)
  have 1: "fst (convert_bulk sample_upstream 2000 sample_bulk sample_state) =
       Success (''USD'',
         [(''EUR'', ResultEntry (Finite False 5629499534213120 (- 49))
                      (Finite False 4503599627370496 (- 53))
                      (Finite False 5629499534213120 (- 50))),
          (''ZZZ'', ErrorEntry ''Invalid currency code''),
          (''THB'', ErrorEntry ''Amount must be a number'')])"
    using convert_bulk_valid [OF u sample_cache_fields(1,2) b(1) _ b(2)]
    by (simp add: sample_tables bulk_entry_of_def assign_def t pf m del: num_mul.simps)
  have 2: "fst (convert_bulk sample_upstream 2000 (sample_bulk\<lparr>bulk_from := Some ''ZZZ''\<rparr>)
      sample_state) = Failure 400 (ValidationError ''Invalid source currency: ZZZ'')"
    using convert_bulk_invalid_source [OF u sample_cache_fields(1) b'(1) _ b'(2) t(2)] by simp
  show ?thesis
    using 1 2 by simp
qed

text \<open>
  A key of \<^verbatim>\<open>amounts\<close> that is the name of an inherited property passes the test of the
  currency list: it gets no error entry.
\<close>

lemma bulk_entry_of_inherited:
  assumes "inherited k" and "rs k = None" and "\<not> isNaN (parseFloat_json v)"
  shows "bulk_entry_of cur rs fromToUsd k v = ResultEntry (parseFloat_json v) NaN NaN"
proof -
  have "k \<noteq> ''USD''"
    using assms(1) inherited_names(7) by auto
  then show ?thesis
    using assms
    by (simp add: bulk_entry_of_def truthy_at_def rate_of_def num_mul_NaN_right del: num_mul.simps)
qed

text \<open>
  Claim C4 fails on the names of inherited properties, none of them a key of the currency
  list. In the request \<^verbatim>\<open>{ from: "USD", amounts: { EUR: 10, constructor: 5, __proto__: 5 } }\<close>
  the key \<^verbatim>\<open>constructor\<close> gets a result entry with rate and result \<^verbatim>\<open>NaN\<close> and the key
  \<^verbatim>\<open>__proto__\<close> gets no entry at all, where the claim has an error entry for each. With the
  source \<^verbatim>\<open>constructor\<close> the request succeeds, where the claim has it fail.
\<close>

theorem bulk_inherited_names:
  "''constructor'' \<notin> dom sample_currencies \<and> ''__proto__'' \<notin> dom sample_currencies
   \<and> fst (convert_bulk sample_upstream 2000 inherited_bulk sample_state) =
       Success (''USD'',
         [(''EUR'', ResultEntry (Finite False 5629499534213120 (- 49))
                      (Finite False 4503599627370496 (- 53))
                      (Finite False 5629499534213120 (- 50))),
          (''constructor'', ResultEntry (Finite False 5629499534213120 (- 50)) NaN NaN)])
   \<and> fst (convert_bulk sample_upstream 2000 (inherited_bulk\<lparr>bulk_from := Some ''constructor''\<rparr>)
            sample_state) =
       Success (''constructor'',
         [(''EUR'', ResultEntry (Finite False 5629499534213120 (- 49)) NaN NaN),
          (''constructor'', ResultEntry (Finite False 5629499534213120 (- 50)) NaN NaN)])"
proof -
  let ?entries = "[(''EUR'', JNumber (Finite False 5629499534213120 (- 49))),
                   (''constructor'', JNumber (Finite False 5629499534213120 (- 50))),
                   (''__proto__'', JNumber (Finite False 5629499534213120 (- 50)))]"
  have u: "updateCache sample_upstream 2000 ''USD'' (currencyCache sample_state) = ([], None, sample_cache)"
    by (simp add: updateCache_def sample_state_def sample_needs sample_cache_fields)
  have b: "bulk_from inherited_bulk = Some ''USD''" "bulk_amounts inherited_bulk = Some ?entries"
    by (simp_all add: inherited_bulk_def)
  have b': "bulk_from (inherited_bulk\<lparr>bulk_from := Some ''constructor''\<rparr>) = Some ''constructor''"
    "bulk_amounts (inherited_bulk\<lparr>bulk_from := Some ''constructor''\<rparr>) = Some ?entries"
    by (simp_all add: inherited_bulk_def)
  have d: "''constructor'' \<notin> dom sample_currencies" "''__proto__'' \<notin> dom sample_currencies"
    by (simp_all add: sample_currencies_def domIff)
  have t: "truthy_at sample_currencies ''USD''" "truthy_at sample_currencies ''EUR''"
    "truthy_at sample_currencies ''constructor''" "truthy_at sample_currencies ''__proto__''"
    by (simp_all add: truthy_at_def inherited_names sample_tables)
  have rs: "rate_of usd_rates ''constructor'' = NaN" "rate_of usd_rates ''__proto__'' = NaN"
    by (simp_all add: usd_rates_def rate_of_def)
  have pf: "parseFloat_json (JNumber (Finite False 5629499534213120 (- 49))) =
      Finite False 5629499534213120 (- 49)"
    "parseFloat_json (JNumber (Finite False 5629499534213120 (- 50))) =
      Finite False 5629499534213120 (- 50)"
    "\<not> isNaN (Finite False 5629499534213120 (- 49))"
    "\<not> isNaN (Finite False 5629499534213120 (- 50))"
    by (simp_all add: parseFloat_json_def isNaN_def)
  have m: "num_mul (num_of_int 1) (Finite False 4503599627370496 (- 53)) =
      Finite False 4503599627370496 (- 53)"
    "num_mul (Finite False 5629499534213120 (- 49)) (Finite False 4503599627370496 (- 53)) =
      Finite False 5629499534213120 (- 50)"
    by (simp_all add: number_eval)
  have n: "num_mul a NaN = NaN" "num_mul NaN a = NaN" "num_div a NaN = NaN" for a
    by (simp_all add: num_mul_NaN_right num_div_NaN_right)
  have 1: "fst (convert_bulk sample_upstream 2000 inherited_bulk sample_state) =
       Success (''USD'',
         [(''EUR'', ResultEntry (Finite False 5629499534213120 (- 49))
                      (Finite False 4503599627370496 (- 53))
                      (Finite False 5629499534213120 (- 50))),
          (''constructor'', ResultEntry (Finite False 5629499534213120 (- 50)) NaN NaN)])"
    using convert_bulk_truthy [OF u sample_cache_fields(1,2) b(1) _ b(2) t(1)]
    by (simp add: sample_tables bulk_entry_of_def assign_def t rs pf m n
        del: num_mul.simps num_div.simps)
  have 2: "fst (convert_bulk sample_upstream 2000 (inherited_bulk\<lparr>bulk_from := Some ''constructor''\<rparr>)
            sample_state) =
       Success (''constructor'',
         [(''EUR'', ResultEntry (Finite False 5629499534213120 (- 49)) NaN NaN),
          (''constructor'', ResultEntry (Finite False 5629499534213120 (- 50)) NaN NaN)])"
    using convert_bulk_truthy [OF u sample_cache_fields(1,2) b'(1) _ b'(2) t(3)]
    by (simp add: sample_tables bulk_entry_of_def assign_def t rs pf m n
        del: num_mul.simps num_div.simps)
  show ?thesis
    by (intro conjI) (fact d(1), fact d(2), fact 1, fact 2)
qed

subsection \<open>Interleaved refreshes\<close>

lemma valid_refs_initial: "valid_refs initial_server"
  by (simp add: valid_refs_def initial_server_def)

lemma list_all_update:
  "list_all P xs \<Longrightarrow> P y \<Longrightarrow> list_all P (xs[i := y])"
  by (induction xs arbitrary: i) (auto split: nat.splits)

lemma ref_ok_mono: "ref_ok n t \<Longrightarrow> n \<le> k \<Longrightarrow> ref_ok k t"
  by (auto simp: ref_ok_def split: task.splits)

lemma valid_refs_step: "valid_refs sv \<Longrightarrow> valid_refs (step ev sv)"
proof (cases ev)
  case (Call base now)
  assume "valid_refs sv"
  then show ?thesis
    by (simp add: Call start_call_def valid_refs_def Let_def ref_ok_def)
next
  case (Settle i up)
  assume v: "valid_refs sv"
  show ?thesis
  proof (cases "length (tasks sv) \<le> i")
    case True
    then show ?thesis using v by (simp add: Settle settle_def)
  next
    case False
    have grow: "list_all (ref_ok (Suc (length (heap sv)))) (tasks sv)"
      using v by (auto simp: valid_refs_def list_all_iff intro: ref_ok_mono)
    have r: "ref_ok n Returned" "ref_ok n (Threw e)" for n e
      by (simp_all add: ref_ok_def)
    show ?thesis
      using v False grow
      by (auto simp: Settle settle_def valid_refs_def Let_def list_all_update r
          split: task.splits sum.splits)
  qed
qed

lemma valid_refs_run: "valid_refs sv \<Longrightarrow> valid_refs (run evs sv)"
  by (induction evs arbitrary: sv) (simp_all add: valid_refs_step)

lemma start_call_full:
  "needs_full_refresh now (current_cache sv) \<Longrightarrow>
   start_call base now sv =
     sv\<lparr>tasks := tasks sv @ [AwaitAll now base],
        requests := requests sv @ [GetCurrencies, GetLatest base]\<rparr>"
  by (simp add: start_call_def)

lemma start_call_rates:
  "\<not> needs_full_refresh now (current_cache sv) \<Longrightarrow>
   baseCurrency (current_cache sv) \<noteq> Some base \<Longrightarrow>
   start_call base now sv =
     sv\<lparr>tasks := tasks sv @ [AwaitRates (cache_ref sv) now base],
        requests := requests sv @ [GetLatest base]\<rparr>"
  by (simp add: start_call_def)

lemma in_flight_append:
  "in_flight (sv\<lparr>tasks := tasks sv @ [t], requests := rq\<rparr>) =
     in_flight sv + (if is_pending t then 1 else 0)"
  by (simp add: in_flight_def)

lemma run_calls_cold:
  "current_cache sv = initial_cache \<Longrightarrow>
   in_flight (run (map (\<lambda>(base, now). Call base now) calls) sv) = in_flight sv + length calls \<and>
   requests (run (map (\<lambda>(base, now). Call base now) calls) sv) =
     requests sv @ concat (map (\<lambda>(base, now). [GetCurrencies, GetLatest base]) calls) \<and>
   current_cache (run (map (\<lambda>(base, now). Call base now) calls) sv) = initial_cache"
proof (induction calls arbitrary: sv)
  case Nil
  then show ?case by simp
next
  case (Cons c calls)
  obtain base now where c: "c = (base, now)" by (cases c)
  let ?sv = "start_call base now sv"
  have n: "needs_full_refresh now (current_cache sv)"
    using Cons.prems by (simp add: needs_full_refresh_def initial_cache_def)
  have s: "?sv = sv\<lparr>tasks := tasks sv @ [AwaitAll now base],
      requests := requests sv @ [GetCurrencies, GetLatest base]\<rparr>"
    using n by (rule start_call_full)
  have cc: "current_cache ?sv = initial_cache"
    using Cons.prems by (simp add: s current_cache_def)
  have fl: "in_flight ?sv = Suc (in_flight sv)"
    by (simp add: s in_flight_append is_pending_def)
  have rq: "requests ?sv = requests sv @ [GetCurrencies, GetLatest base]"
    by (simp add: s)
  show ?case
    using Cons.IH [OF cc] by (simp add: c fl rq)
qed

lemma settle_full_ok:
  assumes "i < length (tasks sv)" and "tasks sv ! i = AwaitAll now base"
    and "currencies_response up = Some cs" and "rates_response up base = Some rs"
  shows "current_cache (settle i up sv) =
      \<lparr>currencies = Some cs, rates = Some rs, baseCurrency = Some base, lastUpdated = Some now\<rparr>"
    and "tasks (settle i up sv) = (tasks sv)[i := Returned]"
  using assms
  by (simp_all add: settle_def fetchAllCurrencies_def fetchAllRates_def current_cache_def)

lemma settle_failure_keeps_heap:
  assumes "i < length (tasks sv)" and "tasks (settle i up sv) ! i = Threw e"
    and "is_pending (tasks sv ! i)"
  shows "heap (settle i up sv) = heap sv \<and> cache_ref (settle i up sv) = cache_ref sv"
  using assms
  by (auto simp add: settle_def is_pending_def Let_def split: task.splits sum.splits)

text \<open>
  A call that no other call interleaves with is the function \<open>updateCache\<close>: the two steps
  of the call leave the cache, send the requests and end the way \<open>updateCache\<close> says.
\<close>

lemma updateCache_as_run:
  assumes "cache_ref sv < length (heap sv)"
  shows "(case updateCache up now base (current_cache sv) of (calls, err, c) \<Rightarrow>
      current_cache (run [Call base now, Settle (length (tasks sv)) up] sv) = c \<and>
      requests (run [Call base now, Settle (length (tasks sv)) up] sv) = requests sv @ calls \<and>
      tasks (run [Call base now, Settle (length (tasks sv)) up] sv) =
        tasks sv @ [case err of None \<Rightarrow> Returned | Some e \<Rightarrow> Threw e])"
proof (cases "needs_full_refresh now (current_cache sv)")
  case True
  then show ?thesis
    by (simp add: updateCache_def start_call_def settle_def current_cache_def
        split: sum.splits)
next
  case False
  show ?thesis
  proof (cases "baseCurrency (current_cache sv) = Some base")
    case True
    then show ?thesis
      using False by (simp add: updateCache_def start_call_def settle_def current_cache_def)
  next
    case nb: False
    then show ?thesis
      using False assms
      by (simp add: updateCache_def start_call_def settle_def current_cache_def Let_def
          split: sum.splits)
  qed
qed

lemmas run_eval = start_call_def settle_def current_cache_def initial_server_def
  needs_full_refresh_def CACHE_EXPIRATION_def initial_cache_def in_flight_def is_pending_def
  Let_def

lemma stampede_state:
  "run stampede_run initial_server =
     \<lparr>heap = [initial_cache], cache_ref = 0,
      tasks = [AwaitAll 1000 ''USD'', AwaitAll 1001 ''USD''],
      requests = [GetCurrencies, GetLatest ''USD'', GetCurrencies, GetLatest ''USD'']\<rparr>"
  by (simp add: stampede_run_def run_eval)

lemma first_refresh_state:
  "run [Call ''USD'' 1000, Settle 0 sample_upstream] initial_server =
     \<lparr>heap = [initial_cache, sample_cache], cache_ref = 1, tasks = [Returned],
      requests = [GetCurrencies, GetLatest ''USD'']\<rparr>"
  by (simp add: run_eval sample_fetches sample_cache_def)

lemma torn_state:
  "run torn_run initial_server =
     \<lparr>heap = [initial_cache,
              sample_cache\<lparr>rates := Some eur_rates\<rparr>,
              \<lparr>currencies = Some sample_currencies, rates = Some usd_rates,
               baseCurrency = Some ''EUR'', lastUpdated = Some 300999\<rparr>],
      cache_ref = 2, tasks = [Returned, Returned, Returned],
      requests = [GetCurrencies, GetLatest ''USD'', GetLatest ''EUR'',
                  GetCurrencies, GetLatest ''USD'']\<rparr>"
  by (simp add: torn_run_def run_eval sample_fetches sample_cache_def)

lemma rates_differ: "usd_rates \<noteq> eur_rates"
proof
  assume "usd_rates = eur_rates"
  then have "usd_rates ''USD'' = eur_rates ''USD''" by simp
  then show False by (simp add: usd_rates_def eur_rates_def)
qed

text \<open>
  Claim C9, as the code has it. \<^verbatim>\<open>updateCache\<close> has no guard against a refresh in flight:
  a call that finds the snapshot missing or expired, or fresh with another base, sends
  its own requests whatever other calls wait for; \<open>n\<close> calls on the empty cache put \<open>n\<close>
  refreshes in flight, with \<open>2n\<close> requests. A full refresh whose two fetches succeed
  makes a new object of its own four values the cache, in one step.
\<close>

theorem refreshes_are_independent:
  "(needs_full_refresh now (current_cache sv) \<longrightarrow>
      in_flight (step (Call base now) sv) = Suc (in_flight sv) \<and>
      requests (step (Call base now) sv) = requests sv @ [GetCurrencies, GetLatest base])
   \<and> (\<not> needs_full_refresh now (current_cache sv) \<and> baseCurrency (current_cache sv) \<noteq> Some base \<longrightarrow>
      in_flight (step (Call base now) sv) = Suc (in_flight sv) \<and>
      requests (step (Call base now) sv) = requests sv @ [GetLatest base])
   \<and> in_flight (run (map (\<lambda>(base, now). Call base now) calls) initial_server) = length calls
   \<and> requests (run (map (\<lambda>(base, now). Call base now) calls) initial_server) =
       concat (map (\<lambda>(base, now). [GetCurrencies, GetLatest base]) calls)
   \<and> (i < length (tasks sv) \<and> tasks sv ! i = AwaitAll now base \<and>
      currencies_response up = Some cs \<and> rates_response up base = Some rs \<longrightarrow>
      current_cache (step (Settle i up) sv) =
        \<lparr>currencies = Some cs, rates = Some rs, baseCurrency = Some base, lastUpdated = Some now\<rparr>)"
proof -
  have 1: "needs_full_refresh now (current_cache sv) \<longrightarrow>
      in_flight (step (Call base now) sv) = Suc (in_flight sv) \<and>
      requests (step (Call base now) sv) = requests sv @ [GetCurrencies, GetLatest base]"
    by (simp add: start_call_full in_flight_append is_pending_def)
  have 2: "\<not> needs_full_refresh now (current_cache sv) \<and> baseCurrency (current_cache sv) \<noteq> Some base \<longrightarrow>
      in_flight (step (Call base now) sv) = Suc (in_flight sv) \<and>
      requests (step (Call base now) sv) = requests sv @ [GetLatest base]"
    by (simp add: start_call_rates in_flight_append is_pending_def)
  have init: "current_cache initial_server = initial_cache" "in_flight initial_server = 0"
    "requests initial_server = []"
    by (simp_all add: current_cache_def initial_server_def in_flight_def)
  have 3: "in_flight (run (map (\<lambda>(base, now). Call base now) calls) initial_server) = length calls"
    using run_calls_cold [OF init(1), of calls] by (simp add: init)
  have 4: "requests (run (map (\<lambda>(base, now). Call base now) calls) initial_server) =
       concat (map (\<lambda>(base, now). [GetCurrencies, GetLatest base]) calls)"
    using run_calls_cold [OF init(1), of calls] by (simp add: init)
  have 5: "i < length (tasks sv) \<and> tasks sv ! i = AwaitAll now base \<and>
      currencies_response up = Some cs \<and> rates_response up base = Some rs \<longrightarrow>
      current_cache (step (Settle i up) sv) =
        \<lparr>currencies = Some cs, rates = Some rs, baseCurrency = Some base, lastUpdated = Some now\<rparr>"
    by (simp add: settle_full_ok)
  show ?thesis
    by (intro conjI) (fact 1, fact 2, fact 3, fact 4, fact 5)
qed

theorem refreshes_are_independent_witness:
  "needs_full_refresh 1001 (current_cache (step (Call ''USD'' 1000) initial_server))
   \<and> in_flight (step (Call ''USD'' 1000) initial_server) = 1
   \<and> in_flight (step (Call ''USD'' 1001) (step (Call ''USD'' 1000) initial_server)) = 2
   \<and> requests (step (Call ''USD'' 1001) (step (Call ''USD'' 1000) initial_server)) =
       [GetCurrencies, GetLatest ''USD'', GetCurrencies, GetLatest ''USD'']
   \<and> in_flight (run stampede_run initial_server) = 2
   \<and> tasks (run stampede_run initial_server) ! 0 = AwaitAll 1000 ''USD''
   \<and> current_cache (step (Settle 0 sample_upstream) (run stampede_run initial_server)) = sample_cache
   \<and> \<not> needs_full_refresh 2000 (current_cache (run [Call ''USD'' 1000, Settle 0 sample_upstream] initial_server))
   \<and> in_flight (step (Call ''EUR'' 2000)
        (step (Call ''EUR'' 2000) (run [Call ''USD'' 1000, Settle 0 sample_upstream] initial_server))) = 2"
proof -
  let ?s1 = "step (Call ''USD'' 1000) initial_server"
  let ?f = "run [Call ''USD'' 1000, Settle 0 sample_upstream] initial_server"
  let ?f1 = "step (Call ''EUR'' 2000) ?f"
  have s1: "?s1 = \<lparr>heap = [initial_cache], cache_ref = 0, tasks = [AwaitAll 1000 ''USD''],
      requests = [GetCurrencies, GetLatest ''USD'']\<rparr>"
    by (simp add: run_eval)
  have n1: "needs_full_refresh 1001 (current_cache ?s1)" "in_flight ?s1 = 1"
    "requests ?s1 = [GetCurrencies, GetLatest ''USD'']"
    by (simp_all add: s1) (simp_all add: run_eval)
  have a: "in_flight (step (Call ''USD'' 1001) ?s1) = 2 \<and>
      requests (step (Call ''USD'' 1001) ?s1) =
        [GetCurrencies, GetLatest ''USD'', GetCurrencies, GetLatest ''USD'']"
    using refreshes_are_independent [of 1001 ?s1 "''USD''"] n1 by simp
  have b: "in_flight (run stampede_run initial_server) = 2"
    using refreshes_are_independent [of _ _ _ "[(''USD'', 1000), (''USD'', 1001)]"]
    by (simp add: stampede_run_def)
  have t: "0 < length (tasks (run stampede_run initial_server))"
    "tasks (run stampede_run initial_server) ! 0 = AwaitAll 1000 ''USD''"
    by (simp_all add: stampede_state)
  have r: "currencies_response sample_upstream = Some sample_currencies"
    "rates_response sample_upstream ''USD'' = Some usd_rates"
    by (simp_all add: sample_upstream_def)
  have c: "current_cache (step (Settle 0 sample_upstream) (run stampede_run initial_server)) =
      sample_cache"
    using refreshes_are_independent
      [of 1000 "run stampede_run initial_server" "''USD''" _ 0 sample_upstream sample_currencies usd_rates]
      t r
    by (simp add: sample_cache_def)
  have f: "\<not> needs_full_refresh 2000 (current_cache ?f)"
    "baseCurrency (current_cache ?f) \<noteq> Some ''EUR''" "in_flight ?f = 0"
    by (simp_all only: first_refresh_state)
      (simp_all add: current_cache_def sample_cache_def needs_full_refresh_def
        CACHE_EXPIRATION_def in_flight_def is_pending_def)
  have d1: "in_flight ?f1 = 1"
    using refreshes_are_independent [of 2000 ?f "''EUR''"] f by simp
  have f1: "\<not> needs_full_refresh 2000 (current_cache ?f1)"
    "baseCurrency (current_cache ?f1) \<noteq> Some ''EUR''"
    by (simp_all only: step.simps first_refresh_state)
      (simp_all add: start_call_def current_cache_def sample_cache_def needs_full_refresh_def
        CACHE_EXPIRATION_def)
  have d2: "in_flight (step (Call ''EUR'' 2000) ?f1) = 2"
    using refreshes_are_independent [of 2000 ?f1 "''EUR''"] f1 d1 by simp
  show ?thesis
    using n1 a b t c f d2 by simp
qed

text \<open>
  Two refreshes in flight at once; and a cache whose rates are those fetched for
  \<^verbatim>\<open>USD\<close> by one call while its base is the \<^verbatim>\<open>EUR\<close> of another: the change of base wrote
  its rates to the object that was the cache when it started, and its base and timestamp
  to the object that the full refresh had installed meanwhile.
\<close>

theorem single_flight_counterexample:
  "in_flight (run stampede_run initial_server) = 2
   \<and> requests (run stampede_run initial_server) =
       [GetCurrencies, GetLatest ''USD'', GetCurrencies, GetLatest ''USD'']
   \<and> tasks (run torn_run initial_server) = [Returned, Returned, Returned]
   \<and> baseCurrency (current_cache (run torn_run initial_server)) = Some ''EUR''
   \<and> rates (current_cache (run torn_run initial_server)) = rates_response sample_upstream ''USD''
   \<and> rates_response sample_upstream ''USD'' \<noteq> rates_response sample_upstream ''EUR''"
  using rates_differ
  by (simp add: stampede_state torn_state in_flight_def is_pending_def current_cache_def
      sample_upstream_def)

subsection \<open>History store\<close>

text \<open>
  An append stores the record unless the user's name is that of an inherited property
  and the store has no list of its own under it.
\<close>

lemma history_of_post_history:
  "history_of (snd (post_history now body st)) user =
     (if user_of body = user \<and> (\<not> inherited user \<or> user \<in> dom (conversionHistoryStore st))
      then take 20 ((body_conversion body)\<lparr>timestamp := now\<rparr> # history_of st user)
      else history_of st user)"
  by (auto simp add: post_history_def history_of_def user_of_def truthy_at_def Let_def domIff
      split: option.splits)

lemma post_history_inherited_user:
  assumes "inherited (user_of body)" and "user_of body \<notin> dom (conversionHistoryStore st)"
  shows "post_history now body st =
     (Failure 500 (TypeError ''conversionHistoryStore[userId].unshift is not a function''), st)"
  using assms by (simp add: post_history_def user_of_def truthy_at_def Let_def domIff)

lemma post_all_inherited_users:
  assumes "\<forall>(now, body) \<in> set reqs.
      inherited (user_of body) \<and> user_of body \<notin> dom (conversionHistoryStore st)"
  shows "post_all reqs st = st"
  using assms
proof (induction reqs)
  case Nil
  then show ?case by simp
next
  case (Cons req reqs)
  obtain now body where req: "req = (now, body)" by (cases req)
  have "post_history now body st =
      (Failure 500 (TypeError ''conversionHistoryStore[userId].unshift is not a function''), st)"
    using Cons.prems by (intro post_history_inherited_user) (simp_all add: req)
  then show ?case
    using Cons by (simp add: req)
qed

lemma take_append_take: "take n (xs @ take n ys) = take n (xs @ ys)"
  by (simp add: min_def)

lemma history_of_post_all:
  assumes "\<not> inherited user"
  shows "history_of (post_all reqs st) user =
     (if records_for user reqs = [] then history_of st user
      else take 20 (rev (records_for user reqs) @ history_of st user))"
proof (induction reqs arbitrary: st)
  case Nil
  then show ?case by (simp add: records_for_def)
next
  case (Cons req reqs)
  obtain now body where req: "req = (now, body)" by (cases req)
  let ?st = "snd (post_history now body st)"
  have step: "history_of (post_all (req # reqs) st) user =
      (if records_for user reqs = [] then history_of ?st user
       else take 20 (rev (records_for user reqs) @ history_of ?st user))"
    using Cons.IH [of ?st] by (simp add: req)
  show ?case
  proof (cases "user_of body = user")
    case False
    then have "history_of ?st user = history_of st user"
      by (simp add: history_of_post_history)
    moreover have "records_for user (req # reqs) = records_for user reqs"
      using False by (simp add: records_for_def req)
    ultimately show ?thesis
      by (simp only: step)
  next
    case True
    let ?r = "(body_conversion body)\<lparr>timestamp := now\<rparr>"
    let ?old = "history_of st user"
    let ?new = "rev (records_for user reqs)"
    have recs: "records_for user (req # reqs) = ?r # records_for user reqs"
      using True by (simp add: records_for_def req)
    have h: "history_of ?st user = take 20 (?r # ?old)"
      using True assms by (simp add: history_of_post_history)
    have "take 20 (?new @ take 20 (?r # ?old)) = take 20 (?new @ ?r # ?old)"
      by (rule take_append_take)
    then show ?thesis
      by (simp only: step recs h rev.simps append_assoc append_Cons append_Nil list.distinct
          if_False rev_is_Nil_conv split: if_splits) simp
  qed
qed

text \<open>
  Appends for a user whose name is not that of an inherited property. Each append puts
  the new record in front of the user's list and cuts the list to its first 20 entries;
  after any run of appends the user's list is the 20 most recent of its records, newest
  first; 25 appends for one user leave exactly the last 20 of these records, newest
  first, the first 5 gone.
\<close>

lemma history_own_names:
  assumes "\<not> inherited user"
  shows "(user_of body = user \<longrightarrow>
        post_history now body st =
          (Success HistoryOk,
           st\<lparr>conversionHistoryStore := (conversionHistoryStore st)
                (user \<mapsto> take 20 ((body_conversion body)\<lparr>timestamp := now\<rparr> # history_of st user))\<rparr>))
   \<and> (user_of body \<noteq> user \<longrightarrow>
        history_of (snd (post_history now body st)) user = history_of st user)
   \<and> (records_for user reqs \<noteq> [] \<longrightarrow>
        history_of (post_all reqs st) user =
          take 20 (rev (records_for user reqs) @ history_of st user))
   \<and> (length (records_for user reqs) = 25 \<longrightarrow>
        length (history_of (post_all reqs st) user) = 20 \<and>
        history_of (post_all reqs st) user = rev (drop 5 (records_for user reqs)))"
proof -
  have 1: "user_of body = user \<longrightarrow>
        post_history now body st =
          (Success HistoryOk,
           st\<lparr>conversionHistoryStore := (conversionHistoryStore st)
                (user \<mapsto> take 20 ((body_conversion body)\<lparr>timestamp := now\<rparr> # history_of st user))\<rparr>)"
    using assms
    by (auto simp add: post_history_def history_of_def user_of_def truthy_at_def Let_def
        split: option.splits)
  have 2: "user_of body \<noteq> user \<longrightarrow>
        history_of (snd (post_history now body st)) user = history_of st user"
    by (simp add: history_of_post_history)
  have 3: "records_for user reqs \<noteq> [] \<longrightarrow>
        history_of (post_all reqs st) user =
          take 20 (rev (records_for user reqs) @ history_of st user)"
    by (simp add: history_of_post_all [OF assms])
  have 4: "length (records_for user reqs) = 25 \<longrightarrow>
        length (history_of (post_all reqs st) user) = 20 \<and>
        history_of (post_all reqs st) user = rev (drop 5 (records_for user reqs))"
  proof
    assume l: "length (records_for user reqs) = 25"
    then have ne: "records_for user reqs \<noteq> []" by auto
    have eq: "history_of (post_all reqs st) user =
        take 20 (rev (records_for user reqs) @ history_of st user)"
      using ne by (simp add: history_of_post_all [OF assms])
    have "take 20 (rev (records_for user reqs) @ history_of st user) =
        take 20 (rev (records_for user reqs))"
      using l by simp
    also have "\<dots> = rev (drop (length (records_for user reqs) - 20) (records_for user reqs))"
      by (rule take_rev)
    also have "length (records_for user reqs) - 20 = 5"
      using l by simp
    finally have t: "take 20 (rev (records_for user reqs) @ history_of st user) =
        rev (drop 5 (records_for user reqs))" .
    show "length (history_of (post_all reqs st) user) = 20 \<and>
        history_of (post_all reqs st) user = rev (drop 5 (records_for user reqs))"
      unfolding eq t using l by simp
  qed
  show ?thesis
    by (intro conjI) (fact 1, fact 2, fact 3, fact 4)
qed

text \<open>25 appends without a \<^verbatim>\<open>userId\<close> leave the records of the times 25 down to 6.\<close>

lemma history_sample_posts:
  "length (records_for ''anonymous'' sample_posts) = 25
   \<and> length (history_of (post_all sample_posts initial_state) ''anonymous'') = 20
   \<and> map timestamp (history_of (post_all sample_posts initial_state) ''anonymous'') =
       [25, 24, 23, 22, 21, 20, 19, 18, 17, 16, 15, 14, 13, 12, 11, 10, 9, 8, 7, 6]"
proof -
  have r: "map timestamp (records_for ''anonymous'' sample_posts) =
      [1, 2, 3, 4, 5, 6, 7, 8, 9, 10, 11, 12, 13, 14, 15, 16, 17, 18, 19, 20, 21, 22, 23, 24, 25]"
    by (simp add: records_for_def sample_posts_def user_of_def)
  have "length (map timestamp (records_for ''anonymous'' sample_posts)) = 25"
    by (simp only: r) simp
  then have l: "length (records_for ''anonymous'' sample_posts) = 25"
    by simp
  have "length (history_of (post_all sample_posts initial_state) ''anonymous'') = 20 \<and>
      history_of (post_all sample_posts initial_state) ''anonymous'' =
        rev (drop 5 (records_for ''anonymous'' sample_posts))"
    using history_own_names [OF inherited_names(4), of "snd (hd sample_posts)" 0 initial_state
        sample_posts] l
    by blast
  moreover have "map timestamp (rev (drop 5 (records_for ''anonymous'' sample_posts))) =
      rev (drop 5 (map timestamp (records_for ''anonymous'' sample_posts)))"
    by (simp only: rev_map drop_map)
  ultimately show ?thesis
    using l by (simp add: r)
qed

text \<open>
  Claim C8 fails for the user \<^verbatim>\<open>constructor\<close>, whose name is that of an inherited property.
  An append for this user on the empty store is answered with status 500 and leaves the
  store as it was: the record is not put in front of the user's list. After 25 such
  appends the user's list holds no record, where the claim has the 20 most recent.
\<close>

theorem history_inherited_user:
  "user_of inherited_post = ''constructor''
   \<and> post_history 1 inherited_post initial_state =
       (Failure 500 (TypeError ''conversionHistoryStore[userId].unshift is not a function''),
        initial_state)
   \<and> history_of (snd (post_history 1 inherited_post initial_state)) ''constructor'' = []
   \<and> length (records_for ''constructor'' inherited_posts) = 25
   \<and> post_all inherited_posts initial_state = initial_state
   \<and> history_of (post_all inherited_posts initial_state) ''constructor'' = []"
proof -
  have u: "user_of inherited_post = ''constructor''"
    by (simp add: user_of_def inherited_post_def)
  have e: "conversionHistoryStore initial_state = Map.empty"
    by (simp add: initial_state_def)
  have h: "history_of initial_state ''constructor'' = []"
    by (simp add: history_of_def e)
  have 1: "post_history 1 inherited_post initial_state =
       (Failure 500 (TypeError ''conversionHistoryStore[userId].unshift is not a function''),
        initial_state)"
    by (rule post_history_inherited_user) (simp_all add: u e inherited_names)
  have l: "length (records_for ''constructor'' inherited_posts) = 25"
    by (simp add: records_for_def inherited_posts_def u)
  have "\<forall>(now, body) \<in> set inherited_posts.
      inherited (user_of body) \<and> user_of body \<notin> dom (conversionHistoryStore initial_state)"
    by (simp add: inherited_posts_def u e inherited_names)
  then have 2: "post_all inherited_posts initial_state = initial_state"
    by (rule post_all_inherited_users)
  show ?thesis
    using u 1 2 l h by simp
qed

end
